theory Spec2Isabelle
  imports Main "HOL-Library.Char_ord" "HOL-Library.List_Lexorder"
begin

section \<open>Strings\<close>

text \<open>
  A JavaScript string is a sequence of code units. The embedding uses \<^typ>\<open>string\<close>
  and reads a \<^typ>\<open>char\<close> as a code unit below 256, so the white space that
  \<^verbatim>\<open>String.prototype.trim\<close> strips is TAB, LF, VT, FF, CR, SP and NBSP.
\<close>

definition is_ws :: "char \<Rightarrow> bool" where
  "is_ws c = (c \<in> {CHR 0x09, CHR 0x0A, CHR 0x0B, CHR 0x0C, CHR 0x0D, CHR 0x20, CHR 0xA0})"

definition trim :: "string \<Rightarrow> string" where
  "trim s = rev (dropWhile is_ws (rev (dropWhile is_ws s)))"

text \<open>\<^verbatim>\<open>a || b\<close> on strings: the empty string is the only falsy one.\<close>

definition or_else :: "string \<Rightarrow> string \<Rightarrow> string" where
  "or_else a b = (if a = [] then b else a)"

text \<open>\<^verbatim>\<open>opt?.trim()\<close>, followed by a truthiness test: an absent field counts as empty.\<close>

definition trim_opt :: "string option \<Rightarrow> string" where
  "trim_opt s = (case s of None \<Rightarrow> [] | Some t \<Rightarrow> trim t)"

definition newline :: string where
  "newline = [CHR 0x0A]"

definition apostrophe :: string where
  "apostrophe = [CHR 0x27]"

text \<open>\<^verbatim>\<open>Array.prototype.join\<close>.\<close>

fun join :: "string \<Rightarrow> string list \<Rightarrow> string" where
  "join sep [] = []"
| "join sep [x] = x"
| "join sep (x # y # ys) = x @ sep @ join sep (y # ys)"

text \<open>Decimal rendering of a number inside a template literal.\<close>

definition digit_char :: "nat \<Rightarrow> char" where
  "digit_char d = ''0123456789'' ! (d mod 10)"

function decimal :: "nat \<Rightarrow> string" where
  "decimal n = (if n < 10 then [digit_char n] else decimal (n div 10) @ [digit_char n])"
  by pat_completeness auto
termination
  by (relation "measure id") auto

definition show_int :: "int \<Rightarrow> string" where
  "show_int i = (if i < 0 then CHR ''-'' # decimal (nat (- i)) else decimal (nat i))"

section \<open>Errors and numbers\<close>

text \<open>
  What the code can throw: a missing environment variable, a failed search request, and
  three errors of the database layer: SQLite's \<^verbatim>\<open>SQLITE_FULL\<close> when no rowid is left,
  its \<^verbatim>\<open>datatype mismatch\<close> for a \<^verbatim>\<open>LIMIT\<close> that is no 64-bit integer, and the
  \<^verbatim>\<open>ERR_OUT_OF_RANGE\<close> of the driver when an integer column does not fit a number.
\<close>

datatype error = MissingEnv string | RequestFailed nat | SqliteFull | DatatypeMismatch | OutOfRange

definition MAX_ROWID :: int where
  "MAX_ROWID = 9223372036854775807"

definition MIN_ROWID :: int where
  "MIN_ROWID = - 9223372036854775808"

definition MAX_SAFE_INTEGER :: int where
  "MAX_SAFE_INTEGER = 9007199254740991"

text \<open>
  A JavaScript number is a double. \<open>to_number i\<close> is the double that a 64-bit integer
  \<open>i\<close> becomes (\<^verbatim>\<open>Number(bigint)\<close>, or the driver's own conversion): \<open>i\<close> itself up to
  \<open>2^53\<close> in magnitude, and beyond that the nearest multiple of the spacing \<open>ulp\<close> of the
  doubles there, a tie going to the even one.
\<close>

function ulp :: "nat \<Rightarrow> nat" where
  "ulp n = (if n < 9007199254740992 then 1 else 2 * ulp (n div 2))"
  by pat_completeness auto
termination
  by (relation "measure id") auto

definition round_half_even :: "nat \<Rightarrow> nat \<Rightarrow> nat" where
  "round_half_even n u =
     (let q = n div u; r = n mod u
      in if 2 * r < u then q * u
         else if u < 2 * r then (q + 1) * u
         else if even q then q * u else (q + 1) * u)"

definition to_number :: "int \<Rightarrow> int" where
  "to_number i =
     (if i < 0 then - int (round_half_even (nat (- i)) (ulp (nat (- i))))
      else int (round_half_even (nat i) (ulp (nat i))))"

text \<open>
  A number inside a template literal or \<^verbatim>\<open>join\<close>: the decimal digits of a safe integer.
  For an integer beyond the safe range the platform prints the shortest digits that
  identify the double; that rendering is the parameter \<open>number_text\<close>.
\<close>

definition show_number :: "(int \<Rightarrow> string) \<Rightarrow> int \<Rightarrow> string" where
  "show_number number_text i =
     (if \<bar>i\<bar> \<le> MAX_SAFE_INTEGER then show_int i else number_text i)"

section \<open>The search cache (server.ts)\<close>

record SearchResult =
  title :: "string option"
  url :: "string option"
  date :: "string option"
  snippet :: "string option"

record CachedSearchResult =
  query :: string
  answerText :: string
  sources :: "SearchResult list"
  createdAt :: int

text \<open>
  \<^verbatim>\<open>searchCache\<close> is a JavaScript \<^verbatim>\<open>Map\<close>: its entries are kept in insertion
  order, \<^verbatim>\<open>set\<close> on a key that is present replaces the value where it stands, and
  \<^verbatim>\<open>delete\<close> removes the entry. The embedding is the list of entries in iteration order.
\<close>

type_synonym cache = "(string \<times> CachedSearchResult) list"

definition Map_keys :: "cache \<Rightarrow> string set" where
  "Map_keys c = fst ` set c"

definition Map_get :: "cache \<Rightarrow> string \<Rightarrow> CachedSearchResult option" where
  "Map_get c k = map_of c k"

definition Map_delete :: "cache \<Rightarrow> string \<Rightarrow> cache" where
  "Map_delete c k = filter (\<lambda>e. fst e \<noteq> k) c"

definition Map_set :: "cache \<Rightarrow> string \<Rightarrow> CachedSearchResult \<Rightarrow> cache" where
  "Map_set c k v =
     (if k \<in> Map_keys c then map (\<lambda>e. if fst e = k then (k, v) else e) c
      else c @ [(k, v)])"

definition SEARCH_CACHE_TTL_MS :: int where
  "SEARCH_CACHE_TTL_MS = 30 * 60 * 1000"

definition SEARCH_CACHE_MAX_ITEMS :: nat where
  "SEARCH_CACHE_MAX_ITEMS = 200"

definition expired :: "int \<Rightarrow> CachedSearchResult \<Rightarrow> bool" where
  "expired now v = (now - createdAt v > SEARCH_CACHE_TTL_MS)"

text \<open>
  \<^verbatim>\<open>cleanupSearchCache\<close>: the first loop walks the entries and deletes the expired
  ones by key; the second part sorts the remaining entries by \<^verbatim>\<open>createdAt\<close>
  (\<^verbatim>\<open>Array.prototype.sort\<close> is stable, and so is \<^const>\<open>sort_key\<close>) and deletes the
  keys of the first \<^verbatim>\<open>size - SEARCH_CACHE_MAX_ITEMS\<close> of them.
\<close>

definition delete_expired :: "int \<Rightarrow> cache \<Rightarrow> cache" where
  "delete_expired now c =
     fold (\<lambda>e acc. if expired now (snd e) then Map_delete acc (fst e) else acc) c c"

definition delete_all :: "(string \<times> CachedSearchResult) list \<Rightarrow> cache \<Rightarrow> cache" where
  "delete_all es c = fold (\<lambda>e acc. Map_delete acc (fst e)) es c"

definition cleanupSearchCache :: "int \<Rightarrow> cache \<Rightarrow> cache" where
  "cleanupSearchCache now c =
     (let c1 = delete_expired now c in
      if length c1 \<le> SEARCH_CACHE_MAX_ITEMS then c1
      else
        let entries = sort_key (\<lambda>e. createdAt (snd e)) c1 in
        delete_all (take (length c1 - SEARCH_CACHE_MAX_ITEMS) entries) c1)"


text \<open>
  The platform's URL parser is not code of the repository: \<open>hostname_of u\<close> stands for
  \<^verbatim>\<open>new URL(u).hostname\<close>, and is \<open>None\<close> where the constructor throws (as it does
  on a string without a scheme, such as \<^verbatim>\<open>"not a url"\<close>).
\<close>

definition sourceFromUrl :: "(string \<Rightarrow> string option) \<Rightarrow> string \<Rightarrow> string" where
  "sourceFromUrl hostname_of u = (case hostname_of u of Some h \<Rightarrow> h | None \<Rightarrow> ''unknown'')"

definition toSummary :: "SearchResult \<Rightarrow> string \<Rightarrow> string" where
  "toSummary s fallback =
     take 1500 (or_else (or_else (trim_opt (snippet s)) (trim fallback)) ''No summary available.'')"

section \<open>The repository (topicNews.ts)\<close>

text \<open>
  The columns \<^verbatim>\<open>title\<close>, \<^verbatim>\<open>url\<close> and \<^verbatim>\<open>id\<close> are the fields \<open>row_title\<close>,
  \<open>row_url\<close> and \<open>row_id\<close>: the first two names are taken by the fields of a search
  result, the third by the identity function.
\<close>

record TopicNewsInsert =
  topic :: string
  source :: string
  row_title :: string
  row_url :: string
  summary :: string

record TopicNewsRow = TopicNewsInsert +
  row_id :: int
  created_at :: string

text \<open>
  The table \<^verbatim>\<open>topic_news\<close> in rowid order, as it is stored, with the counter that
  SQLite keeps for an \<^verbatim>\<open>AUTOINCREMENT\<close> key (the largest rowid the table has ever
  held). A rowid is a 64-bit integer; the file may come from an earlier run, so the
  counter can stand anywhere.
\<close>

record repository =
  dbPath :: string
  rows :: "TopicNewsRow list"
  sqlite_sequence :: int

text \<open>\<^verbatim>\<open>createTopicNewsRepository\<close> on a database file that does not exist yet.\<close>

definition createTopicNewsRepository :: "string \<Rightarrow> repository" where
  "createTopicNewsRepository path = \<lparr>dbPath = path, rows = [], sqlite_sequence = 0\<rparr>"

text \<open>
  \<^verbatim>\<open>INTEGER PRIMARY KEY AUTOINCREMENT\<close>: the new rowid is one more than the largest
  rowid that has ever been in the table; once the largest 64-bit rowid has been used the
  insert fails with \<^verbatim>\<open>SQLITE_FULL\<close>.
\<close>

definition next_rowid :: "repository \<Rightarrow> int" where
  "next_rowid db = fold max (map row_id (rows db)) (sqlite_sequence db) + 1"

text \<open>
  \<^verbatim>\<open>insert.run(...)\<close>: \<open>stamp\<close> is what \<^verbatim>\<open>datetime('now')\<close> evaluates to when the
  statement runs. The text columns are stored as they are bound. The result is
  \<^verbatim>\<open>lastInsertRowid\<close>, which reaches the caller as a number: the rowid up to \<open>2^53\<close>,
  a rounded value beyond.
\<close>

definition insert_run ::
  "string \<Rightarrow> TopicNewsInsert \<Rightarrow> repository \<Rightarrow> error + (repository \<times> int)" where
  "insert_run stamp r db =
     (if MAX_ROWID < next_rowid db then Inl SqliteFull
      else
        let rid = next_rowid db;
            new = \<lparr>topic = topic r, source = source r, row_title = row_title r,
                   row_url = row_url r, summary = summary r, row_id = rid, created_at = stamp\<rparr>
        in Inr (db\<lparr>rows := rows db @ [new], sqlite_sequence := rid\<rparr>, to_number rid))"

text \<open>
  \<^verbatim>\<open>saveMany\<close>: one insert per row, each reading the clock for itself (\<open>clock k\<close> is the
  reading at the \<open>k\<close>-th insert of the batch), the rowids pushed in order. Both branches of
  the \<^verbatim>\<open>typeof\<close> test push the rowid as a number. There is no transaction: when an
  insert throws, the rows inserted before it stay, which is why the repository is returned
  beside the result.
\<close>

fun saveMany_loop ::
  "(nat \<Rightarrow> string) \<Rightarrow> nat \<Rightarrow> TopicNewsInsert list \<Rightarrow> repository \<Rightarrow> int list
     \<Rightarrow> repository \<times> (error + int list)" where
  "saveMany_loop clock k [] db insertedIds = (db, Inr insertedIds)"
| "saveMany_loop clock k (r # rs) db insertedIds =
     (case insert_run (clock k) r db of
        Inl e \<Rightarrow> (db, Inl e)
      | Inr (db', rid) \<Rightarrow> saveMany_loop clock (Suc k) rs db' (insertedIds @ [rid]))"

definition saveMany ::
  "(nat \<Rightarrow> string) \<Rightarrow> TopicNewsInsert list \<Rightarrow> repository \<Rightarrow> repository \<times> (error + int list)" where
  "saveMany clock rs db = saveMany_loop clock 0 rs db []"

text \<open>
  Reading a row back. The driver hands a text column over as a C string, so the text
  returned ends before its first NUL code unit; an integer column outside the safe range
  of a number makes the read throw. The \<^verbatim>\<open>id\<close> is the first column selected.
\<close>

definition read_text :: "string \<Rightarrow> string" where
  "read_text s = takeWhile (\<lambda>c. c \<noteq> CHR 0x00) s"

definition read_columns :: "TopicNewsRow \<Rightarrow> TopicNewsRow" where
  "read_columns r =
     \<lparr>topic = read_text (topic r), source = read_text (source r),
      row_title = read_text (row_title r), row_url = read_text (row_url r),
      summary = read_text (summary r), row_id = row_id r,
      created_at = read_text (created_at r)\<rparr>"

definition read_row :: "TopicNewsRow \<Rightarrow> error + TopicNewsRow" where
  "read_row r = (if \<bar>row_id r\<bar> \<le> MAX_SAFE_INTEGER then Inr (read_columns r) else Inl OutOfRange)"

fun read_rows :: "TopicNewsRow list \<Rightarrow> error + TopicNewsRow list" where
  "read_rows [] = Inr []"
| "read_rows (r # rs) =
     (case read_row r of
        Inl e \<Rightarrow> Inl e
      | Inr x \<Rightarrow> (case read_rows rs of Inl e \<Rightarrow> Inl e | Inr xs \<Rightarrow> Inr (x # xs)))"

text \<open>
  \<^verbatim>\<open>WHERE topic = ?\<close> compares the stored text with the bound text, byte for byte.
  \<^verbatim>\<open>ORDER BY created_at DESC\<close> compares the stored text byte by byte, which is the
  lexicographic order on \<^typ>\<open>string\<close>; rows with equal \<^verbatim>\<open>created_at\<close> are kept in rowid
  order here (SQLite leaves their order open, and nothing below depends on it).
  The limit is an integer-valued number: \<^verbatim>\<open>LIMIT n\<close> with a negative \<open>n\<close> puts no bound
  on the number of rows, and an \<open>n\<close> outside the 64-bit range is refused with
  \<^verbatim>\<open>datatype mismatch\<close> before any row is read. Only the rows selected are read back.
\<close>

definition order_by_created_at_desc :: "TopicNewsRow list \<Rightarrow> TopicNewsRow list" where
  "order_by_created_at_desc rs = rev (sort_key created_at (rev rs))"

definition sql_limit :: "int \<Rightarrow> 'a list \<Rightarrow> 'a list" where
  "sql_limit n xs = (if n < 0 then xs else take (nat n) xs)"

definition selectByTopic :: "string \<Rightarrow> int \<Rightarrow> repository \<Rightarrow> error + TopicNewsRow list" where
  "selectByTopic t n db =
     (if n < MIN_ROWID \<or> MAX_ROWID < n then Inl DatatypeMismatch
      else read_rows (sql_limit n (order_by_created_at_desc (filter (\<lambda>r. topic r = t) (rows db)))))"

definition selectAll :: "int \<Rightarrow> repository \<Rightarrow> error + TopicNewsRow list" where
  "selectAll n db =
     (if n < MIN_ROWID \<or> MAX_ROWID < n then Inl DatatypeMismatch
      else read_rows (sql_limit n (order_by_created_at_desc (rows db))))"

definition listByTopic :: "string \<Rightarrow> int option \<Rightarrow> repository \<Rightarrow> error + TopicNewsRow list" where
  "listByTopic t limit db = selectByTopic t (case limit of None \<Rightarrow> 10 | Some n \<Rightarrow> n) db"

definition listAll :: "int option \<Rightarrow> repository \<Rightarrow> error + TopicNewsRow list" where
  "listAll limit db = selectAll (case limit of None \<Rightarrow> 100 | Some n \<Rightarrow> n) db"

text \<open>\<^verbatim>\<open>getById\<close>: the row with that rowid, read back, or \<^verbatim>\<open>null\<close>.\<close>

definition getById :: "int \<Rightarrow> repository \<Rightarrow> error + TopicNewsRow option" where
  "getById i db =
     (case find (\<lambda>r. row_id r = i) (rows db) of
        None \<Rightarrow> Inr None
      | Some r \<Rightarrow> (case read_row r of Inl e \<Rightarrow> Inl e | Inr x \<Rightarrow> Inr (Some x)))"

section \<open>The tools (server.ts)\<close>

text \<open>The loop of \<^verbatim>\<open>saveNewsRows\<close> over \<^verbatim>\<open>sources.slice(0, 5)\<close>.\<close>

fun rowsToSave_loop ::
  "(string \<Rightarrow> string option) \<Rightarrow> string \<Rightarrow> string \<Rightarrow> SearchResult list
     \<Rightarrow> TopicNewsInsert list \<Rightarrow> TopicNewsInsert list" where
  "rowsToSave_loop hostname_of tp answer [] rowsToSave = rowsToSave"
| "rowsToSave_loop hostname_of tp answer (s # ss) rowsToSave =
     (let ttl = or_else (trim_opt (title s)) ''Untitled'';
          u = trim_opt (url s)
      in if u = [] then rowsToSave_loop hostname_of tp answer ss rowsToSave
         else rowsToSave_loop hostname_of tp answer ss
                (rowsToSave @ [\<lparr>topic = tp, source = sourceFromUrl hostname_of u, row_title = ttl,
                                row_url = u, summary = toSummary s answer\<rparr>]))"

definition rowsToSave ::
  "(string \<Rightarrow> string option) \<Rightarrow> string \<Rightarrow> string \<Rightarrow> SearchResult list \<Rightarrow> TopicNewsInsert list" where
  "rowsToSave hostname_of tp answer srcs = rowsToSave_loop hostname_of tp answer (take 5 srcs) []"

definition saveNewsRows ::
  "(string \<Rightarrow> string option) \<Rightarrow> (nat \<Rightarrow> string) \<Rightarrow> string \<Rightarrow> string \<Rightarrow> SearchResult list
     \<Rightarrow> repository \<Rightarrow> repository \<times> (error + int list)" where
  "saveNewsRows hostname_of clock tp answer srcs db =
     saveMany clock (rowsToSave hostname_of tp answer srcs) db"

definition renderSource :: "nat \<times> SearchResult \<Rightarrow> string" where
  "renderSource p =
     (let i = fst p; s = snd p;
          ttl = (case title s of None \<Rightarrow> ''source'' | Some t \<Rightarrow> t);
          u = (case url s of None \<Rightarrow> [] | Some v \<Rightarrow> v);
          d = (case date s of None \<Rightarrow> [] | Some v \<Rightarrow> v)
      in decimal (i + 1) @ ''. '' @ ttl
           @ (if d \<noteq> [] then '' ('' @ d @ '')'' else [])
           @ (if u \<noteq> [] then newline @ ''   '' @ u else []))"

definition renderSourceLines :: "SearchResult list \<Rightarrow> string list" where
  "renderSourceLines srcs = map renderSource (enumerate 0 (take 5 srcs))"

definition renderSources :: "SearchResult list \<Rightarrow> string" where
  "renderSources srcs = join newline (renderSourceLines srcs)"

definition renderDbRow :: "(int \<Rightarrow> string) \<Rightarrow> nat \<times> TopicNewsRow \<Rightarrow> string" where
  "renderDbRow number_text p =
     (let idx = fst p; row = snd p
      in decimal (idx + 1) @ ''. ['' @ show_number number_text (row_id row) @ ''] '' @ row_title row
           @ newline @ ''   topic: '' @ topic row
           @ newline @ ''   source: '' @ source row
           @ newline @ ''   url: '' @ row_url row
           @ newline @ ''   created_at: '' @ created_at row
           @ newline @ ''   summary: '' @ summary row)"

definition renderDbRows :: "(int \<Rightarrow> string) \<Rightarrow> TopicNewsRow list \<Rightarrow> string" where
  "renderDbRows number_text rs =
     join (newline @ newline) (map (renderDbRow number_text) (enumerate 0 rs))"

text \<open>
  \<^verbatim>\<open>fetchLatestWebData\<close>: the environment variable and the HTTP response are inputs.
  \<open>content\<close> is \<^verbatim>\<open>data.choices?.[0]?.message?.content\<close>, \<open>search_results\<close> is
  \<open>None\<close> when \<^verbatim>\<open>data.search_results\<close> is not an array.
\<close>

record http_response =
  ok :: bool
  status :: nat
  content :: "string option"
  search_results :: "SearchResult list option"

definition requireEnv :: "string \<Rightarrow> string option \<Rightarrow> error + string" where
  "requireEnv name v = (case v of None \<Rightarrow> Inl (MissingEnv name)
                        | Some k \<Rightarrow> if k = [] then Inl (MissingEnv name) else Inr k)"

definition fetchLatestWebData ::
  "string option \<Rightarrow> http_response \<Rightarrow> error + (string \<times> SearchResult list)" where
  "fetchLatestWebData env_key resp =
     (case requireEnv ''PERPLEXITY_API_KEY'' env_key of
        Inl e \<Rightarrow> Inl e
      | Inr apiKey \<Rightarrow>
          if \<not> ok resp then Inl (RequestFailed (status resp))
          else Inr (case content resp of None \<Rightarrow> ''No answer text returned.'' | Some t \<Rightarrow> t,
                    case search_results resp of None \<Rightarrow> [] | Some l \<Rightarrow> l))"

record server =
  searchCache :: cache
  topicNewsRepo :: repository

definition not_saved_notice :: string where
  "not_saved_notice =
     ''Not saved to SQL. If the user wants this stored, call save_to_db with this result_id.''"

text \<open>
  The \<^verbatim>\<open>search_web\<close> handler. \<open>resultId\<close> is what \<^verbatim>\<open>randomUUID()\<close> returns,
  \<open>t_set\<close> and \<open>t_cleanup\<close> are the two readings of \<^verbatim>\<open>Date.now()\<close>, the first for
  \<^verbatim>\<open>createdAt\<close> and the second inside \<^verbatim>\<open>cleanupSearchCache()\<close>. A failed fetch
  throws before the cache is touched.
\<close>

definition search_web ::
  "string option \<Rightarrow> http_response \<Rightarrow> string \<Rightarrow> int \<Rightarrow> int \<Rightarrow> string \<Rightarrow> server
     \<Rightarrow> server \<times> (error + string)" where
  "search_web env_key resp resultId t_set t_cleanup q sv =
     (case fetchLatestWebData env_key resp of
        Inl e \<Rightarrow> (sv, Inl e)
      | Inr (answer, srcs) \<Rightarrow>
          (let topSources = renderSources srcs;
               c1 = Map_set (searchCache sv) resultId
                      \<lparr>query = q, answerText = answer, sources = srcs, createdAt = t_set\<rparr>;
               c2 = cleanupSearchCache t_cleanup c1;
               parts = [''result_id: '' @ resultId, answer]
                         @ (if topSources \<noteq> [] then [''Sources:'' @ newline @ topSources] else [])
                         @ [not_saved_notice]
           in (sv\<lparr>searchCache := c2\<rparr>, Inr (join (newline @ newline) parts))))"

definition no_cached_message :: "string \<Rightarrow> string" where
  "no_cached_message result_id =
     ''No cached search found for result_id '' @ apostrophe @ result_id @ apostrophe
       @ ''. Run search_web again.''"

text \<open>
  \<^verbatim>\<open>insertedIds.map((id) => topicNewsRepo.getById(id)).filter(...)\<close>: the rows found,
  in order; a read that throws ends the handler.
\<close>

fun savedRows :: "int list \<Rightarrow> repository \<Rightarrow> error + TopicNewsRow list" where
  "savedRows [] db = Inr []"
| "savedRows (i # ids) db =
     (case getById i db of
        Inl e \<Rightarrow> Inl e
      | Inr row \<Rightarrow>
          (case savedRows ids db of
             Inl e \<Rightarrow> Inl e
           | Inr rs \<Rightarrow> Inr (case row of None \<Rightarrow> rs | Some r \<Rightarrow> r # rs)))"

definition saved_message :: "(int \<Rightarrow> string) \<Rightarrow> repository \<Rightarrow> int list \<Rightarrow> TopicNewsRow list \<Rightarrow> string" where
  "saved_message number_text db insertedIds saved =
     (let savedRowsText =
            (if length saved > 0
             then newline @ newline @ ''Saved rows:'' @ newline @ renderDbRows number_text saved
             else [])
      in ''Saved '' @ decimal (length insertedIds) @ '' row(s) to SQLite table ''
           @ apostrophe @ ''topic_news'' @ apostrophe @ '' at '' @ dbPath db @ ''.'' @ newline
           @ ''ids: '' @ or_else (join '', '' (map (show_number number_text) insertedIds)) ''(none)''
           @ savedRowsText)"

text \<open>
  The \<^verbatim>\<open>save_to_db\<close> handler: \<open>now\<close> is the reading of \<^verbatim>\<open>Date.now()\<close> inside
  \<^verbatim>\<open>cleanupSearchCache()\<close>; the only read of the cache is the \<^verbatim>\<open>get\<close> that follows
  that cleanup. The handler returns its text, or throws what the repository throws; the
  server it leaves behind is returned in both cases.
\<close>

definition save_to_db ::
  "(string \<Rightarrow> string option) \<Rightarrow> (int \<Rightarrow> string) \<Rightarrow> (nat \<Rightarrow> string) \<Rightarrow> int \<Rightarrow> string
     \<Rightarrow> string option \<Rightarrow> server \<Rightarrow> server \<times> (error + string)" where
  "save_to_db hostname_of number_text clock now result_id topic_arg sv =
     (let c1 = cleanupSearchCache now (searchCache sv) in
      case Map_get c1 result_id of
        None \<Rightarrow> (sv\<lparr>searchCache := c1\<rparr>, Inr (no_cached_message result_id))
      | Some cached \<Rightarrow>
          (let sqlTopic = or_else (trim_opt topic_arg) (query cached) in
           case saveNewsRows hostname_of clock sqlTopic (answerText cached) (sources cached)
                  (topicNewsRepo sv) of
             (db, Inl e) \<Rightarrow> (\<lparr>searchCache = c1, topicNewsRepo = db\<rparr>, Inl e)
           | (db, Inr insertedIds) \<Rightarrow>
               (case savedRows insertedIds db of
                  Inl e \<Rightarrow> (\<lparr>searchCache = c1, topicNewsRepo = db\<rparr>, Inl e)
                | Inr saved \<Rightarrow>
                    (\<lparr>searchCache = c1, topicNewsRepo = db\<rparr>,
                     Inr (saved_message number_text db insertedIds saved)))))"

section \<open>Streaming a turn (cli main.ts)\<close>

text \<open>
  What the loop of \<^verbatim>\<open>runTurn\<close> reads of a stream item: whether it is an array, the
  \<^verbatim>\<open>content\<close> of its first element and the \<^verbatim>\<open>langgraph_node\<close> of its second
  (\<open>None\<close> when there is no such string). A content block is something that is not an
  object, an object with a string \<^verbatim>\<open>text\<close>, or another object.
\<close>

datatype block = NotObject | TextBlock string | OtherBlock

datatype message_content = Str string | Blocks "block list" | NoContent

datatype chunk = NotArray | Tuple message_content "string option"

fun extractChunkText_loop :: "block list \<Rightarrow> string \<Rightarrow> string" where
  "extractChunkText_loop [] text = text"
| "extractChunkText_loop (TextBlock t # bs) text = extractChunkText_loop bs (text @ t)"
| "extractChunkText_loop (b # bs) text = extractChunkText_loop bs text"

fun extractChunkText :: "message_content \<Rightarrow> string" where
  "extractChunkText (Str s) = s"
| "extractChunkText (Blocks bs) = extractChunkText_loop bs []"
| "extractChunkText NoContent = []"

text \<open>The state of the loop: \<^verbatim>\<open>streamed\<close> and the writes made to standard output so far.\<close>

fun runTurn_loop :: "chunk list \<Rightarrow> string \<times> string list \<Rightarrow> string \<times> string list" where
  "runTurn_loop [] st = st"
| "runTurn_loop (NotArray # cs) st = runTurn_loop cs st"
| "runTurn_loop (Tuple c node # cs) (streamed, out) =
     (if node \<noteq> Some ''model'' then runTurn_loop cs (streamed, out)
      else let tokenText = extractChunkText c in
        if tokenText = [] then runTurn_loop cs (streamed, out)
        else runTurn_loop cs (streamed @ tokenText, out @ [tokenText]))"

definition no_text_marker :: string where
  "no_text_marker = ''(no assistant text returned)'' @ newline"

definition runTurn :: "chunk list \<Rightarrow> string list" where
  "runTurn stream =
     (case runTurn_loop stream ([], []) of
        (streamed, out) \<Rightarrow> out @ [if streamed \<noteq> [] then newline else no_text_marker])"

text \<open>
  The streaming contract in the specification's words: the fragments surfaced are the
  non-empty texts of the items that come from the model node, in arrival order.
\<close>

definition block_text :: "block \<Rightarrow> string" where
  "block_text b = (case b of TextBlock t \<Rightarrow> t | _ \<Rightarrow> [])"

definition chunk_text :: "message_content \<Rightarrow> string" where
  "chunk_text c = (case c of Str s \<Rightarrow> s | Blocks bs \<Rightarrow> concat (map block_text bs) | NoContent \<Rightarrow> [])"

definition model_fragments :: "chunk list \<Rightarrow> string list" where
  "model_fragments stream =
     filter (\<lambda>t. t \<noteq> [])
       (concat (map (\<lambda>c. case c of NotArray \<Rightarrow> []
                          | Tuple m node \<Rightarrow> if node = Some ''model'' then [chunk_text m] else [])
                stream))"

section \<open>Notions used in the statements\<close>

text \<open>The row that an insert of \<open>r\<close> stores under rowid \<open>i\<close> at clock reading \<open>stamp\<close>.\<close>

definition stored_row :: "TopicNewsInsert \<Rightarrow> int \<Rightarrow> string \<Rightarrow> TopicNewsRow" where
  "stored_row r i stamp =
     \<lparr>topic = topic r, source = source r, row_title = row_title r, row_url = row_url r,
      summary = summary r, row_id = i, created_at = stamp\<rparr>"

text \<open>A text, and a stored row, without a NUL code unit: they read back as they are.\<close>

definition nul_free :: "string \<Rightarrow> bool" where
  "nul_free s = (CHR 0x00 \<notin> set s)"

definition row_nul_free :: "TopicNewsRow \<Rightarrow> bool" where
  "row_nul_free r =
     (nul_free (topic r) \<and> nul_free (source r) \<and> nul_free (row_title r) \<and> nul_free (row_url r)
      \<and> nul_free (summary r) \<and> nul_free (created_at r))"

text \<open>The candidate row that \<^verbatim>\<open>saveNewsRows\<close> derives from one source.\<close>

definition candidate_row ::
  "(string \<Rightarrow> string option) \<Rightarrow> string \<Rightarrow> string \<Rightarrow> SearchResult \<Rightarrow> TopicNewsInsert" where
  "candidate_row hostname_of tp answer s =
     \<lparr>topic = tp, source = sourceFromUrl hostname_of (trim_opt (url s)),
      row_title = or_else (trim_opt (title s)) ''Untitled'', row_url = trim_opt (url s),
      summary = toSummary s answer\<rparr>"

section \<open>Example states\<close>

definition example_sources :: "SearchResult list" where
  "example_sources =
     [\<lparr>title = Some ''Apple beats estimates'', url = Some ''https://news.example.com/aapl'',
       date = Some ''2026-01-30'', snippet = Some '' Revenue rose. ''\<rparr>,
      \<lparr>title = None, url = Some ''not a url'', date = None, snippet = None\<rparr>,
      \<lparr>title = Some ''No link'', url = None, date = None, snippet = None\<rparr>]"

definition example_result :: CachedSearchResult where
  "example_result =
     \<lparr>query = ''AAPL earnings'', answerText = ''Apple reported earnings.'',
      sources = example_sources, createdAt = 1000\<rparr>"

definition example_server :: server where
  "example_server =
     \<lparr>searchCache = [(''h1'', example_result)],
      topicNewsRepo = createTopicNewsRepository ''news.sqlite''\<rparr>"

definition example_clock :: "nat \<Rightarrow> string" where
  "example_clock k = ''2026-01-30 10:00:0'' @ decimal k"

text \<open>
  A cache of 203 entries: one created at time 1000 and 202 created one millisecond apart
  from time 2000000 on.
\<close>

definition full_cache :: cache where
  "full_cache =
     (''old'', example_result)
       # map (\<lambda>i. (replicate (Suc i) CHR ''k'', example_result\<lparr>createdAt := 2000000 + int i\<rparr>))
           [0..<202]"

definition example_rows :: "TopicNewsInsert list" where
  "example_rows =
     [\<lparr>topic = ''AAPL'', source = ''news.example.com'', row_title = ''Apple beats estimates'',
       row_url = ''https://news.example.com/aapl'', summary = ''Revenue rose.''\<rparr>,
      \<lparr>topic = ''AAPL'', source = ''unknown'', row_title = ''Untitled'',
       row_url = ''not a url'', summary = ''Apple reported earnings.''\<rparr>]"

definition example_repo :: repository where
  "example_repo = fst (saveMany example_clock example_rows (createTopicNewsRepository ''news.sqlite''))"

text \<open>
  A database file whose counter stands just above \<open>2^53\<close>, and a repository holding one
  row whose topic and title contain a NUL code unit.
\<close>

definition rounding_repo :: repository where
  "rounding_repo = \<lparr>dbPath = ''news.sqlite'', rows = [], sqlite_sequence = 9007199254740994\<rparr>"

definition nul_text :: string where
  "nul_text = [CHR ''a'', CHR 0x00, CHR ''b'']"

definition nul_rows :: "TopicNewsInsert list" where
  "nul_rows =
     [\<lparr>topic = nul_text, source = ''news.example.com'', row_title = nul_text,
       row_url = ''https://news.example.com/a'', summary = ''Revenue rose.''\<rparr>]"

definition nul_repo :: repository where
  "nul_repo = fst (saveMany example_clock nul_rows (createTopicNewsRepository ''news.sqlite''))"

text \<open>
  The values of the platform's URL parser on the URLs of the example: the first has a
  host, the second has no scheme and is rejected.
\<close>

definition example_hostname_of :: "string \<Rightarrow> string option" where
  "example_hostname_of u =
     (if u = ''https://news.example.com/aapl'' then Some ''news.example.com'' else None)"

text \<open>A server whose one cached result has a single source, without a URL.\<close>

definition nolink_server :: server where
  "nolink_server =
     \<lparr>searchCache =
        [(''h3'', example_result\<lparr>sources :=
                    [\<lparr>title = Some ''No link'', url = None, date = None, snippet = None\<rparr>]\<rparr>)],
      topicNewsRepo = createTopicNewsRepository ''news.sqlite''\<rparr>"

text \<open>
  A stream with two fragments from the model node, an echo of a tool result, an item that
  is not an array and a model item without text; and a stream with the echo alone.
\<close>

definition example_stream :: "chunk list" where
  "example_stream =
     [Tuple (Str ''Hel'') (Some ''model''),
      Tuple (Str ''result_id: h1'') (Some ''tools''),
      NotArray,
      Tuple (Blocks [TextBlock ''lo'', NotObject, OtherBlock, TextBlock ''!'']) (Some ''model''),
      Tuple NoContent (Some ''model''),
      Tuple (Str ''x'') None]"

definition silent_stream :: "chunk list" where
  "silent_stream = [Tuple (Str ''result_id: h1'') (Some ''tools'')]"

text \<open>A successful response of the search service, and a server whose cache is full.\<close>

definition example_response :: http_response where
  "example_response =
     \<lparr>ok = True, status = 200, content = Some ''Apple reported earnings.'',
      search_results = Some example_sources\<rparr>"

definition full_server :: server where
  "full_server = \<lparr>searchCache = full_cache, topicNewsRepo = example_repo\<rparr>"

text \<open>
  A server whose cache holds 200 entries, created one millisecond apart from time 1000 on;
  a put at time 500 then happens on a clock that has stepped back.
\<close>

definition stepped_cache :: cache where
  "stepped_cache =
     map (\<lambda>i. (replicate (Suc i) CHR ''k'', example_result\<lparr>createdAt := 1000 + int i\<rparr>))
       [0..<200]"

definition stepped_server :: server where
  "stepped_server = \<lparr>searchCache = stepped_cache, topicNewsRepo = example_repo\<rparr>"

section \<open>Facts about the cache\<close>

lemma fold_delete_cond:
  "fold (\<lambda>e acc. if P e then Map_delete acc (fst e) else acc) es c
     = filter (\<lambda>e. fst e \<notin> fst ` {x \<in> set es. P x}) c"
proof (induction es arbitrary: c)
  case Nil
  show ?case by simp
next
  case (Cons a es)
  show ?case
    by (auto simp: Cons.IH Map_delete_def intro!: filter_cong)
qed

lemma delete_all_filter:
  "delete_all es c = filter (\<lambda>e. fst e \<notin> fst ` set es) c"
  using fold_delete_cond [of "\<lambda>_. True" es c] by (simp add: delete_all_def)

lemma delete_expired_keys:
  "delete_expired now c
     = filter (\<lambda>e. fst e \<notin> fst ` {x \<in> set c. expired now (snd x)}) c"
  unfolding delete_expired_def by (rule fold_delete_cond)

lemma distinct_fst_eq:
  "distinct (map fst c) \<Longrightarrow> x \<in> set c \<Longrightarrow> y \<in> set c \<Longrightarrow> fst x = fst y \<Longrightarrow> x = y"
  by (metis eq_key_imp_eq_value prod.collapse)

lemma delete_expired_distinct:
  assumes "distinct (map fst c)"
  shows "delete_expired now c = filter (\<lambda>e. \<not> expired now (snd e)) c"
  unfolding delete_expired_keys
proof (rule filter_cong [OF refl])
  fix e assume "e \<in> set c"
  with assms show "(fst e \<notin> fst ` {x \<in> set c. expired now (snd x)}) = (\<not> expired now (snd e))"
    by (auto dest: distinct_fst_eq [OF assms])
qed

lemma delete_all_distinct:
  assumes "distinct (map fst c)" "set es \<subseteq> set c"
  shows "delete_all es c = filter (\<lambda>e. e \<notin> set es) c"
  unfolding delete_all_filter
proof (rule filter_cong [OF refl])
  fix e assume "e \<in> set c"
  with assms show "(fst e \<notin> fst ` set es) = (e \<notin> set es)"
    by (auto dest: distinct_fst_eq [OF assms(1)])
qed

lemma length_filter_not_in:
  assumes "distinct s" "distinct t" "set t \<subseteq> set s"
  shows "length (filter (\<lambda>e. e \<notin> set t) s) = length s - length t"
proof -
  have "length (filter (\<lambda>e. e \<notin> set t) s) = card (set s - set t)"
    using assms(1) by (metis distinct_card distinct_filter set_diff_eq set_filter)
  also have "\<dots> = card (set s) - card (set t)"
    using assms(3) by (simp add: card_Diff_subset)
  finally show ?thesis using assms by (simp add: distinct_card)
qed

lemma distinct_keys_filter:
  "distinct (map fst c) \<Longrightarrow> distinct (map fst (filter P c))"
  by (simp add: distinct_map_filter)

lemma distinct_keys_entries:
  "distinct (map fst c) \<Longrightarrow> distinct c"
  by (simp add: distinct_map)

lemma cleanup_subset: "set (cleanupSearchCache now c) \<subseteq> set c"
  by (auto simp: cleanupSearchCache_def Let_def delete_expired_keys delete_all_filter)

lemma cleanup_distinct_keys:
  "distinct (map fst c) \<Longrightarrow> distinct (map fst (cleanupSearchCache now c))"
  by (simp add: cleanupSearchCache_def Let_def delete_expired_keys delete_all_filter
      distinct_map_filter)

lemma cleanup_drops_expired_key:
  assumes "(h, v) \<in> set c" "expired now v"
  shows "h \<notin> Map_keys (cleanupSearchCache now c)"
proof -
  have "h \<in> fst ` {x \<in> set c. expired now (snd x)}"
    using assms by force
  moreover have "\<forall>e \<in> set (delete_expired now c). fst e \<notin> fst ` {x \<in> set c. expired now (snd x)}"
    by (simp add: delete_expired_keys)
  ultimately have "h \<notin> fst ` set (delete_expired now c)"
    by blast
  moreover have "set (cleanupSearchCache now c) \<subseteq> set (delete_expired now c)"
    by (auto simp: cleanupSearchCache_def Let_def delete_all_filter)
  ultimately show ?thesis
    unfolding Map_keys_def by blast
qed

lemma Map_get_None_iff: "Map_get c h = None \<longleftrightarrow> h \<notin> Map_keys c"
  by (simp add: Map_get_def Map_keys_def map_of_eq_None_iff)

lemma cleanup_keeps_absent:
  "Map_get c h = None \<Longrightarrow> Map_get (cleanupSearchCache now c) h = None"
  unfolding Map_get_None_iff Map_keys_def using cleanup_subset [of now c] by blast

lemma cleanup_distinct_eq:
  assumes "distinct (map fst c)"
  shows "cleanupSearchCache now c =
           (let s = filter (\<lambda>e. \<not> expired now (snd e)) c
            in filter (\<lambda>e. e \<notin> set (take (length s - SEARCH_CACHE_MAX_ITEMS)
                                           (sort_key (\<lambda>e. createdAt (snd e)) s))) s)"
proof -
  define s where "s = filter (\<lambda>e. \<not> expired now (snd e)) c"
  have ds: "distinct (map fst s)"
    unfolding s_def using assms by (rule distinct_keys_filter)
  have sub: "set (take n (sort_key (\<lambda>e. createdAt (snd e)) s)) \<subseteq> set s" for n
    using set_take_subset [of n "sort_key (\<lambda>e. createdAt (snd e)) s"] by simp
  show ?thesis
    unfolding cleanupSearchCache_def delete_expired_distinct [OF assms] s_def [symmetric] Let_def
    by (simp add: delete_all_distinct [OF ds sub])
qed

lemma sorted_take_le_rest:
  assumes "sorted (map f xs)" "x \<in> set (take n xs)" "y \<in> set xs" "y \<notin> set (take n xs)"
  shows "f x \<le> f y"
proof -
  have "y \<in> set (drop n xs)"
    using assms(3,4) by (metis Un_iff append_take_drop_id set_append)
  moreover have "sorted (map f (take n xs) @ map f (drop n xs))"
    using assms(1) by (metis append_take_drop_id map_append)
  ultimately show ?thesis
    using assms(2) by (auto simp: sorted_append)
qed


section \<open>The cache: cleanup\<close>

text \<open>
  C2. For a cache (a map, so with distinct keys) and a time \<open>now\<close>, cleanup first removes
  every entry whose age exceeds the TTL of 30 minutes; then, among the survivors, it removes
  the first \<open>size - 200\<close> entries in order of creation time (none when there are at most 200).
  Afterwards the size is at most 200, exactly the survivors minus those entries are left,
  and every removed entry was created no later than every entry that is kept.
\<close>

theorem cleanup_ttl_then_capacity:
  assumes "distinct (map fst c)"
  shows "let survivors = filter (\<lambda>e. \<not> now - createdAt (snd e) > SEARCH_CACHE_TTL_MS) c;
             trimmed = take (length survivors - SEARCH_CACHE_MAX_ITEMS)
                         (sort_key (\<lambda>e. createdAt (snd e)) survivors);
             res = cleanupSearchCache now c
         in res = filter (\<lambda>e. e \<notin> set trimmed) survivors
          \<and> length res = min (length survivors) SEARCH_CACHE_MAX_ITEMS
          \<and> length res \<le> SEARCH_CACHE_MAX_ITEMS
          \<and> (\<forall>e \<in> set c. now - createdAt (snd e) > SEARCH_CACHE_TTL_MS \<longrightarrow> e \<notin> set res)
          \<and> set survivors - set res = set trimmed
          \<and> (\<forall>r \<in> set trimmed. \<forall>k \<in> set res. createdAt (snd r) \<le> createdAt (snd k))
          \<and> SEARCH_CACHE_TTL_MS = 1800000 \<and> SEARCH_CACHE_MAX_ITEMS = 200"
proof -
  define s where "s = filter (\<lambda>e. \<not> now - createdAt (snd e) > SEARCH_CACHE_TTL_MS) c"
  define srt where "srt = sort_key (\<lambda>e. createdAt (snd e)) s"
  define t where "t = take (length s - SEARCH_CACHE_MAX_ITEMS) srt"
  define res where "res = cleanupSearchCache now c"
  have s_exp: "s = filter (\<lambda>e. \<not> expired now (snd e)) c"
    by (simp add: s_def expired_def)
  have res_eq: "res = filter (\<lambda>e. e \<notin> set t) s"
    unfolding res_def t_def srt_def s_exp cleanup_distinct_eq [OF assms] Let_def ..
  have ds: "distinct s"
    unfolding s_def using assms by (simp add: distinct_keys_entries)
  have dt: "distinct t"
    unfolding t_def srt_def using ds by simp
  have ts: "set t \<subseteq> set s"
    unfolding t_def srt_def using set_take_subset [of _ "sort_key (\<lambda>e. createdAt (snd e)) s"] by simp
  have lt: "length t = length s - SEARCH_CACHE_MAX_ITEMS"
    unfolding t_def srt_def by simp
  have len: "length res = min (length s) SEARCH_CACHE_MAX_ITEMS"
    unfolding res_eq length_filter_not_in [OF ds dt ts] lt by simp
  have gone: "\<forall>e \<in> set c. now - createdAt (snd e) > SEARCH_CACHE_TTL_MS \<longrightarrow> e \<notin> set res"
    unfolding res_eq s_def by simp
  have removed: "set s - set res = set t"
    unfolding res_eq using ts by auto
  have oldest: "\<forall>r \<in> set t. \<forall>k \<in> set res. createdAt (snd r) \<le> createdAt (snd k)"
  proof (intro ballI)
    fix r k assume r: "r \<in> set t" and k: "k \<in> set res"
    have srtd: "sorted (map (\<lambda>e. createdAt (snd e)) srt)"
      unfolding srt_def by simp
    have k1: "k \<in> set srt" and k2: "k \<notin> set (take (length s - SEARCH_CACHE_MAX_ITEMS) srt)"
      using k unfolding res_eq t_def srt_def by simp_all
    have r1: "r \<in> set (take (length s - SEARCH_CACHE_MAX_ITEMS) srt)"
      using r unfolding t_def .
    show "createdAt (snd r) \<le> createdAt (snd k)"
      by (rule sorted_take_le_rest [OF srtd r1 k1 k2])
  qed
  show ?thesis
    unfolding Let_def s_def [symmetric] srt_def [symmetric] t_def [symmetric] res_def [symmetric]
    using res_eq len gone removed oldest
    by (simp add: SEARCH_CACHE_TTL_MS_def SEARCH_CACHE_MAX_ITEMS_def)
qed

lemma filter_not_in_take:
  assumes "distinct xs"
  shows "filter (\<lambda>e. e \<notin> set (take n xs)) xs = drop n xs"
proof -
  have disj: "set (take n xs) \<inter> set (drop n xs) = {}"
    using assms by (metis append_take_drop_id distinct_append)
  have "filter (\<lambda>e. e \<notin> set (take n xs)) (take n xs @ drop n xs) = drop n xs"
    unfolding filter_append using disj by (auto simp: filter_empty_conv filter_id_conv)
  then show ?thesis by simp
qed

lemma full_cache_distinct: "distinct (map fst full_cache)"
proof -
  have "inj_on (\<lambda>i. replicate (Suc i) CHR ''k'') (set [0..<202])"
    by (rule inj_onI) (metis length_replicate nat.inject)
  then have "distinct (map (\<lambda>i. replicate (Suc i) CHR ''k'') [0..<202])"
    by (simp add: distinct_map)
  moreover have "''old'' \<notin> set (map (\<lambda>i. replicate (Suc i) CHR ''k'') [0..<202])"
    by (auto simp: Cons_replicate_eq)
  ultimately show ?thesis
    by (simp add: full_cache_def comp_def del: replicate.simps upt_Suc)
qed

lemma full_cache_survivors:
  "filter (\<lambda>e. \<not> 2000300 - createdAt (snd e) > SEARCH_CACHE_TTL_MS) full_cache = tl full_cache"
  by (simp add: full_cache_def example_result_def SEARCH_CACHE_TTL_MS_def filter_map comp_def
      del: replicate.simps upt_Suc)

lemma full_cache_sorted: "sorted (map (\<lambda>e. createdAt (snd e)) (tl full_cache))"
proof -
  have "sorted (map (\<lambda>i. 2000000 + int i) [0..<202])"
    unfolding sorted_map by (rule sorted_wrt_mono_rel [OF _ sorted_wrt_upt]) simp
  then show ?thesis
    by (simp add: full_cache_def comp_def del: replicate.simps upt_Suc)
qed

theorem cleanup_ttl_then_capacity_witness:
  "distinct (map fst full_cache)
   \<and> cleanupSearchCache 2000300 full_cache = drop 3 full_cache
   \<and> length (cleanupSearchCache 2000300 full_cache) = 200
   \<and> (''old'', example_result) \<in> set full_cache
   \<and> (''old'', example_result) \<notin> set (cleanupSearchCache 2000300 full_cache)"
proof -
  let ?s = "tl full_cache"
  have d: "distinct (map fst full_cache)"
    by (rule full_cache_distinct)
  have ds: "distinct ?s"
    using d by (simp add: distinct_keys_entries distinct_tl)
  have len: "length ?s = 202"
    by (simp add: full_cache_def del: upt_Suc)
  have srt: "sort_key (\<lambda>e. createdAt (snd e)) ?s = ?s"
    by (rule sort_key_id_if_sorted [OF full_cache_sorted])
  have old: "(''old'', example_result) \<in> set full_cache"
    by (simp add: full_cache_def del: upt_Suc)
  have old_age: "2000300 - createdAt (snd (''old'', example_result)) > SEARCH_CACHE_TTL_MS"
    by (simp add: example_result_def SEARCH_CACHE_TTL_MS_def)
  note inst = cleanup_ttl_then_capacity [OF d, of 2000300, unfolded Let_def full_cache_survivors srt len]
  have res: "cleanupSearchCache 2000300 full_cache = drop 2 ?s"
    using inst [THEN conjunct1] by (simp add: SEARCH_CACHE_MAX_ITEMS_def filter_not_in_take [OF ds])
  have "drop (Suc 2) full_cache = drop 2 ?s"
    by (rule drop_Suc)
  then have "drop 2 ?s = drop 3 full_cache"
    by (simp only: eval_nat_numeral)
  moreover have "length (cleanupSearchCache 2000300 full_cache) = 200"
    using inst [THEN conjunct2, THEN conjunct1] by (simp add: SEARCH_CACHE_MAX_ITEMS_def)
  moreover have "(''old'', example_result) \<notin> set (cleanupSearchCache 2000300 full_cache)"
    using inst old old_age by blast
  ultimately show ?thesis
    using d res old by simp
qed

section \<open>The save tool on a handle that is not cached\<close>

text \<open>
  C1. When the handle is not in the cache as save is invoked, the handler leaves the
  repository as it was and returns the message that tells the caller to search again;
  the handler returns on this path, it does not throw.
\<close>

theorem save_unknown_handle:
  assumes "Map_get (searchCache sv) h = None"
  shows "save_to_db hostname_of number_text clock now h topic_arg sv
           = (sv\<lparr>searchCache := cleanupSearchCache now (searchCache sv)\<rparr>,
              Inr (''No cached search found for result_id '' @ apostrophe @ h @ apostrophe
                     @ ''. Run search_web again.''))
         \<and> topicNewsRepo (fst (save_to_db hostname_of number_text clock now h topic_arg sv))
             = topicNewsRepo sv
         \<and> rows (topicNewsRepo (fst (save_to_db hostname_of number_text clock now h topic_arg sv)))
             = rows (topicNewsRepo sv)"
proof -
  have "Map_get (cleanupSearchCache now (searchCache sv)) h = None"
    using assms by (rule cleanup_keeps_absent)
  then show ?thesis
    by (simp add: save_to_db_def no_cached_message_def)
qed

theorem save_unknown_handle_witness:
  "Map_get (searchCache example_server) ''h2'' = None
   \<and> snd (save_to_db (\<lambda>u. None) show_int example_clock 2000 ''h2'' None example_server)
       = Inr (''No cached search found for result_id '' @ apostrophe @ ''h2'' @ apostrophe
                @ ''. Run search_web again.'')
   \<and> rows (topicNewsRepo
        (fst (save_to_db (\<lambda>u. None) show_int example_clock 2000 ''h2'' None example_server)))
       = []"
proof -
  have absent: "Map_get (searchCache example_server) ''h2'' = None"
    by (simp add: example_server_def Map_get_def)
  have "rows (topicNewsRepo example_server) = []"
    by (simp add: example_server_def createTopicNewsRepository_def)
  with absent save_unknown_handle [OF absent, of "\<lambda>u. None" show_int example_clock 2000 None]
  show ?thesis by simp
qed

section \<open>Expiry on read\<close>

text \<open>
  C3. An entry that is older than the TTL when the cache is read is treated as absent and
  is dropped: the cleanup pass removes it, and the read of the save tool, which runs that
  pass before its lookup, finds nothing under the handle, answers with the message for a
  missing handle, leaves the repository alone, and leaves a cache without the handle.
\<close>

theorem stale_entry_absent_on_read:
  assumes "Map_get (searchCache sv) h = Some e"
    and "now - createdAt e > SEARCH_CACHE_TTL_MS"
  shows "Map_get (cleanupSearchCache now (searchCache sv)) h = None
         \<and> h \<notin> Map_keys (searchCache (fst (save_to_db hostname_of number_text clock now h topic_arg sv)))
         \<and> snd (save_to_db hostname_of number_text clock now h topic_arg sv) = Inr (no_cached_message h)
         \<and> topicNewsRepo (fst (save_to_db hostname_of number_text clock now h topic_arg sv)) = topicNewsRepo sv"
proof -
  have "(h, e) \<in> set (searchCache sv)"
    using assms(1) unfolding Map_get_def by (rule map_of_SomeD)
  moreover have "expired now e"
    using assms(2) by (simp add: expired_def)
  ultimately have gone: "h \<notin> Map_keys (cleanupSearchCache now (searchCache sv))"
    by (rule cleanup_drops_expired_key)
  then have none: "Map_get (cleanupSearchCache now (searchCache sv)) h = None"
    by (simp add: Map_get_None_iff)
  show ?thesis
    using gone none by (simp add: save_to_db_def)
qed

theorem stale_entry_absent_on_read_witness:
  "Map_get (searchCache example_server) ''h1'' = Some example_result
   \<and> 1801001 - createdAt example_result > SEARCH_CACHE_TTL_MS
   \<and> Map_get (cleanupSearchCache 1801001 (searchCache example_server)) ''h1'' = None
   \<and> snd (save_to_db (\<lambda>u. None) show_int example_clock 1801001 ''h1'' None example_server)
       = Inr (no_cached_message ''h1'')"
proof -
  have present: "Map_get (searchCache example_server) ''h1'' = Some example_result"
    by (simp add: example_server_def Map_get_def)
  have old: "1801001 - createdAt example_result > SEARCH_CACHE_TTL_MS"
    by (simp add: example_result_def SEARCH_CACHE_TTL_MS_def)
  from stale_entry_absent_on_read [OF present old, of "\<lambda>u. None" show_int example_clock None]
  show ?thesis using present old by simp
qed

section \<open>Facts about the repository\<close>

lemma fold_max_ge_init: "(a::int) \<le> fold max xs a"
  by (induction xs arbitrary: a) (auto intro: order_trans [OF max.cobounded2])

lemma fold_max_ge_elem: "(x::int) \<in> set xs \<Longrightarrow> x \<le> fold max xs a"
proof (induction xs arbitrary: a)
  case Nil
  then show ?case by simp
next
  case (Cons y ys)
  then show ?case
    using fold_max_ge_init [of "max y a" ys] by auto
qed

lemma next_rowid_gt_sequence: "sqlite_sequence db < next_rowid db"
  using fold_max_ge_init [of "sqlite_sequence db" "map row_id (rows db)"]
  by (simp add: next_rowid_def)

lemma next_rowid_gt_rows: "r \<in> set (rows db) \<Longrightarrow> row_id r < next_rowid db"
  using fold_max_ge_elem [of "row_id r" "map row_id (rows db)" "sqlite_sequence db"]
  by (simp add: next_rowid_def)

lemma fold_max_upper: "(a::int) \<le> b \<Longrightarrow> \<forall>x \<in> set xs. x \<le> b \<Longrightarrow> fold max xs a \<le> b"
  by (induction xs arbitrary: a) auto

lemma round_half_even_safe: "n \<le> 9007199254740992 \<Longrightarrow> round_half_even n (ulp n) = n"
proof (cases "n < 9007199254740992")
  case True
  then have "ulp n = 1"
    by (subst ulp.simps) simp
  then show ?thesis
    by (simp add: round_half_even_def)
next
  case False
  moreover assume "n \<le> 9007199254740992"
  ultimately have n: "n = 9007199254740992"
    by simp
  have "ulp 9007199254740992 = 2 * ulp 4503599627370496"
    by (subst ulp.simps) simp
  also have "ulp 4503599627370496 = 1"
    by (subst ulp.simps) simp
  finally show ?thesis
    unfolding n by (simp add: round_half_even_def)
qed

lemma to_number_safe: "\<bar>i\<bar> \<le> 9007199254740992 \<Longrightarrow> to_number i = i"
  using round_half_even_safe [of "nat i"] round_half_even_safe [of "nat (- i)"]
  by (simp add: to_number_def del: ulp.simps)

lemma insert_run_eq:
  "insert_run stamp r db =
     (if MAX_ROWID < next_rowid db then Inl SqliteFull
      else Inr (db\<lparr>rows := rows db @ [stored_row r (next_rowid db) stamp],
                   sqlite_sequence := next_rowid db\<rparr>,
                to_number (next_rowid db)))"
  by (simp add: insert_run_def stored_row_def Let_def)

lemma next_rowid_after_insert:
  "next_rowid (db\<lparr>rows := rows db @ [stored_row r (next_rowid db) stamp],
                  sqlite_sequence := next_rowid db\<rparr>) = next_rowid db + 1"
proof -
  let ?n = "next_rowid db"
  let ?ids = "map row_id (rows db) @ [?n]"
  have "fold max ?ids ?n \<le> ?n"
    by (rule fold_max_upper) (auto dest: next_rowid_gt_rows [THEN less_imp_le])
  moreover have "?n \<le> fold max ?ids ?n"
    by (rule fold_max_ge_init)
  ultimately have "fold max ?ids ?n = ?n"
    by (rule order_antisym)
  then show ?thesis
    by (simp add: next_rowid_def stored_row_def)
qed

text \<open>A batch that stays within the rowids goes through, with this result.\<close>

lemma saveMany_loop_ok:
  assumes "rs = [] \<or> next_rowid db + int (length rs) \<le> MAX_ROWID + 1"
  shows "saveMany_loop clock k rs db acc =
     (db\<lparr>rows := rows db @ map (\<lambda>j. stored_row (rs ! j) (next_rowid db + int j) (clock (k + j)))
                               [0..<length rs],
         sqlite_sequence := (if rs = [] then sqlite_sequence db
                             else next_rowid db + int (length rs) - 1)\<rparr>,
      Inr (acc @ map (\<lambda>j. to_number (next_rowid db + int j)) [0..<length rs]))"
  using assms
proof (induction rs arbitrary: k db acc)
  case Nil
  show ?case by simp
next
  case (Cons r rs)
  let ?db1 = "db\<lparr>rows := rows db @ [stored_row r (next_rowid db) (clock k)],
                  sqlite_sequence := next_rowid db\<rparr>"
  have ok: "\<not> MAX_ROWID < next_rowid db"
    using Cons.prems by auto
  have n1: "next_rowid ?db1 = next_rowid db + 1"
    by (rule next_rowid_after_insert)
  have step: "saveMany_loop clock k (r # rs) db acc
                = saveMany_loop clock (Suc k) rs ?db1 (acc @ [to_number (next_rowid db)])"
    using ok by (simp add: insert_run_eq)
  have pre: "rs = [] \<or> next_rowid ?db1 + int (length rs) \<le> MAX_ROWID + 1"
    unfolding n1 using Cons.prems by auto
  have shift: "[0..<length (r # rs)] = 0 # map Suc [0..<length rs]"
    by (simp add: upt_conv_Cons map_Suc_upt del: upt_Suc)
  show ?case
    unfolding step Cons.IH [OF pre] n1 shift
    by (simp add: comp_def add.assoc del: upt_Suc)
qed

lemma saveMany_loop_Inr:
  "snd (saveMany_loop clock k rs db acc) = Inr ids
     \<Longrightarrow> rs = [] \<or> next_rowid db + int (length rs) \<le> MAX_ROWID + 1"
proof (induction rs arbitrary: k db acc)
  case Nil
  show ?case by simp
next
  case (Cons r rs)
  let ?db1 = "db\<lparr>rows := rows db @ [stored_row r (next_rowid db) (clock k)],
                  sqlite_sequence := next_rowid db\<rparr>"
  have ok: "\<not> MAX_ROWID < next_rowid db"
    using Cons.prems by (auto simp: insert_run_eq)
  then have "snd (saveMany_loop clock (Suc k) rs ?db1 (acc @ [to_number (next_rowid db)])) = Inr ids"
    using Cons.prems by (simp add: insert_run_eq)
  then have "rs = [] \<or> next_rowid ?db1 + int (length rs) \<le> MAX_ROWID + 1"
    by (rule Cons.IH)
  then show ?case
    unfolding next_rowid_after_insert using ok by auto
qed

lemma saveMany_loop_Inl: "snd (saveMany_loop clock k rs db acc) = Inl e \<Longrightarrow> e = SqliteFull"
proof (induction rs arbitrary: k db acc)
  case Nil
  then show ?case by simp
next
  case (Cons r rs)
  then show ?case
    by (auto simp: insert_run_eq split: if_splits)
qed

lemma saveMany_loop_dbPath: "dbPath (fst (saveMany_loop clock k rs db acc)) = dbPath db"
proof (induction rs arbitrary: k db acc)
  case Nil
  show ?case by simp
next
  case (Cons r rs)
  show ?case
    by (simp add: insert_run_eq Cons.IH)
qed

lemma saveMany_ok:
  assumes "rs = [] \<or> next_rowid db + int (length rs) \<le> MAX_ROWID + 1"
  shows "saveMany clock rs db =
     (db\<lparr>rows := rows db @ map (\<lambda>j. stored_row (rs ! j) (next_rowid db + int j) (clock j))
                               [0..<length rs],
         sqlite_sequence := (if rs = [] then sqlite_sequence db
                             else next_rowid db + int (length rs) - 1)\<rparr>,
      Inr (map (\<lambda>j. to_number (next_rowid db + int j)) [0..<length rs]))"
  by (simp add: saveMany_def saveMany_loop_ok [OF assms] del: upt_Suc)

lemma saveMany_Inr:
  "snd (saveMany clock rs db) = Inr ids
     \<Longrightarrow> rs = [] \<or> next_rowid db + int (length rs) \<le> MAX_ROWID + 1"
  unfolding saveMany_def by (rule saveMany_loop_Inr)

lemma saveMany_Inl: "snd (saveMany clock rs db) = Inl e \<Longrightarrow> e = SqliteFull"
  unfolding saveMany_def by (rule saveMany_loop_Inl)

lemma saveMany_dbPath: "dbPath (fst (saveMany clock rs db)) = dbPath db"
  unfolding saveMany_def by (rule saveMany_loop_dbPath)

lemma find_app:
  "find P (xs @ ys) = (case find P xs of None \<Rightarrow> find P ys | Some x \<Rightarrow> Some x)"
  by (induction xs) simp_all

lemma find_new_row:
  assumes "j < n" and old: "\<forall>r \<in> set old. row_id r < base"
  shows "find (\<lambda>r. row_id r = base + int j)
           (old @ map (\<lambda>j. stored_row (rs ! j) (base + int j) (clock j)) [0..<n])
         = Some (stored_row (rs ! j) (base + int j) (clock j))"
proof -
  let ?new = "map (\<lambda>j. stored_row (rs ! j) (base + int j) (clock j)) [0..<n]"
  have "find (\<lambda>r. row_id r = base + int j) old = None"
    using old by (auto simp: find_None_iff)
  moreover have "find (\<lambda>r. row_id r = base + int j) ?new
                   = Some (stored_row (rs ! j) (base + int j) (clock j))"
    unfolding find_Some_iff
    by (rule exI [of _ j]) (use assms(1) in \<open>simp add: stored_row_def\<close>)
  ultimately show ?thesis
    by (simp add: find_app)
qed

lemma find_old_row:
  assumes "i \<notin> (\<lambda>j. base + int j) ` {0..<n}"
  shows "find (\<lambda>r. row_id r = i)
           (old @ map (\<lambda>j. stored_row (rs ! j) (base + int j) (clock j)) [0..<n])
         = find (\<lambda>r. row_id r = i) old"
proof -
  have "find (\<lambda>r. row_id r = i) (map (\<lambda>j. stored_row (rs ! j) (base + int j) (clock j)) [0..<n])
          = None"
    using assms by (auto simp: find_None_iff stored_row_def)
  then show ?thesis
    by (cases "find (\<lambda>r. row_id r = i) old") (simp_all add: find_app)
qed

text \<open>Reading back: a text without NUL comes back as it is, and the cut keeps the order.\<close>

lemma read_text_id: "nul_free s \<Longrightarrow> read_text s = s"
  by (auto simp: nul_free_def read_text_def takeWhile_eq_all_conv)

lemma read_text_nul_free: "nul_free (read_text s)"
  by (auto simp: nul_free_def read_text_def dest: set_takeWhileD)

lemma read_columns_id: "row_nul_free r \<Longrightarrow> read_columns r = r"
  by (simp add: row_nul_free_def read_columns_def read_text_id)

lemma nul_least: "CHR 0x00 \<le> (c::char)"
  by (simp add: less_eq_char_def)

lemma read_text_mono: "a \<le> b \<Longrightarrow> read_text a \<le> read_text b"
proof (induction a arbitrary: b)
  case Nil
  show ?case by (simp add: read_text_def)
next
  case (Cons x xs)
  then obtain y ys where b: "b = y # ys" and le: "x < y \<or> x = y \<and> xs \<le> ys"
    by (cases b) auto
  show ?case
  proof (cases "x = CHR 0x00")
    case True
    then show ?thesis by (simp add: read_text_def)
  next
    case False
    from le show ?thesis
    proof
      assume "x < y"
      moreover from this have "y \<noteq> CHR 0x00"
        using nul_least [of x] by auto
      ultimately show ?thesis
        using False by (simp add: b read_text_def)
    next
      assume "x = y \<and> xs \<le> ys"
      then show ?thesis
        using False Cons.IH [of ys] by (simp add: b read_text_def)
    qed
  qed
qed

lemma read_rows_Inr:
  "read_rows rs = Inr xs \<Longrightarrow> xs = map read_columns rs"
proof (induction rs arbitrary: xs)
  case Nil
  then show ?case by simp
next
  case (Cons r rs)
  then show ?case
    by (auto simp: read_row_def split: sum.splits if_splits)
qed

lemma read_rows_safe:
  "\<forall>r \<in> set rs. \<bar>row_id r\<bar> \<le> MAX_SAFE_INTEGER \<Longrightarrow> read_rows rs = Inr (map read_columns rs)"
  by (induction rs) (simp_all add: read_row_def)

lemma read_rows_Inl: "read_rows rs = Inl e \<Longrightarrow> e = OutOfRange"
proof (induction rs)
  case Nil
  then show ?case by simp
next
  case (Cons r rs)
  then show ?case
    by (auto simp: read_row_def split: sum.splits if_splits)
qed

section \<open>The repository: identifiers\<close>

text \<open>
  C5, as the code has it. Take a store whose counter is not negative and a batch of \<open>N\<close>
  rows whose new ids stay within the safe integers of a number (the last one at most
  \<open>2^53 - 1\<close>). Then saveMany returns, with \<open>N\<close> ids, one per row in insertion order,
  strictly increasing and so distinct, each larger than every id the table has held.
  getById on each returned id gives the row stored for it as it is read back: the inserted
  fields, the id and the clock reading of its insert, every text cut before its first NUL
  code unit, so the stored row itself when its texts have no NUL. The rows that were
  there before stay retrievable as they were.
\<close>

theorem saveMany_ids:
  assumes counter: "0 \<le> sqlite_sequence db"
    and safe: "next_rowid db + int (length rs) \<le> MAX_SAFE_INTEGER + 1"
  shows "\<exists>db' ids.
       saveMany clock rs db = (db', Inr ids)
       \<and> length ids = length rs
       \<and> sorted_wrt (<) ids
       \<and> distinct ids
       \<and> (\<forall>i \<in> set ids. sqlite_sequence db < i \<and> (\<forall>r \<in> set (rows db). row_id r < i))
       \<and> (\<forall>j < length rs.
             getById (ids ! j) db'
               = Inr (Some (read_columns (stored_row (rs ! j) (ids ! j) (clock j)))))
       \<and> (\<forall>j < length rs.
             row_nul_free (stored_row (rs ! j) (ids ! j) (clock j))
             \<longrightarrow> getById (ids ! j) db' = Inr (Some (stored_row (rs ! j) (ids ! j) (clock j))))
       \<and> (\<forall>i. i \<notin> set ids \<longrightarrow> getById i db' = getById i db)"
proof -
  let ?base = "next_rowid db"
  let ?ids = "map (\<lambda>j. ?base + int j) [0..<length rs]"
  let ?new = "map (\<lambda>j. stored_row (rs ! j) (?base + int j) (clock j)) [0..<length rs]"
  let ?db' = "db\<lparr>rows := rows db @ ?new,
                 sqlite_sequence := (if rs = [] then sqlite_sequence db
                                     else ?base + int (length rs) - 1)\<rparr>"
  have pos: "0 < ?base"
    using counter next_rowid_gt_sequence [of db] by simp
  have in_range: "rs = [] \<or> ?base + int (length rs) \<le> MAX_ROWID + 1"
    using safe by (simp add: MAX_SAFE_INTEGER_def MAX_ROWID_def)
  have exact: "to_number (?base + int j) = ?base + int j" if "j < length rs" for j
    using that pos safe by (intro to_number_safe) (simp add: MAX_SAFE_INTEGER_def)
  then have ids: "map (\<lambda>j. to_number (?base + int j)) [0..<length rs] = ?ids"
    by simp
  have run: "saveMany clock rs db = (?db', Inr ?ids)"
    unfolding saveMany_ok [OF in_range] ids ..
  have inc: "sorted_wrt (<) ?ids"
    unfolding sorted_wrt_map by (rule sorted_wrt_mono_rel [OF _ sorted_wrt_upt]) simp
  have dist: "distinct ?ids"
    by (simp add: distinct_map inj_on_def)
  have fresh: "\<forall>i \<in> set ?ids. sqlite_sequence db < i \<and> (\<forall>r \<in> set (rows db). row_id r < i)"
  proof (intro ballI conjI)
    fix i assume "i \<in> set ?ids"
    then have ge: "?base \<le> i" by auto
    show "sqlite_sequence db < i"
      using next_rowid_gt_sequence [of db] ge by simp
    fix r assume "r \<in> set (rows db)"
    then show "row_id r < i"
      using next_rowid_gt_rows [of r db] ge by simp
  qed
  have old: "\<forall>r \<in> set (rows db). row_id r < ?base"
    by (simp add: next_rowid_gt_rows)
  have found: "find (\<lambda>r. row_id r = ?base + int j) (rows db @ ?new)
                 = Some (stored_row (rs ! j) (?base + int j) (clock j))" if "j < length rs" for j
    by (rule find_new_row [OF that old])
  have readable: "read_row (stored_row (rs ! j) (?base + int j) (clock j))
                    = Inr (read_columns (stored_row (rs ! j) (?base + int j) (clock j)))"
    if "j < length rs" for j
    using that pos safe by (simp add: read_row_def stored_row_def MAX_SAFE_INTEGER_def)
  have got: "\<forall>j < length rs. getById (?ids ! j) ?db'
               = Inr (Some (read_columns (stored_row (rs ! j) (?ids ! j) (clock j))))"
  proof (intro allI impI)
    fix j assume j: "j < length rs"
    then have nth: "?ids ! j = ?base + int j"
      by simp
    show "getById (?ids ! j) ?db'
            = Inr (Some (read_columns (stored_row (rs ! j) (?ids ! j) (clock j))))"
      unfolding nth getById_def by (simp add: found [OF j] readable [OF j] del: upt_Suc)
  qed
  have got_exact: "\<forall>j < length rs. row_nul_free (stored_row (rs ! j) (?ids ! j) (clock j))
               \<longrightarrow> getById (?ids ! j) ?db' = Inr (Some (stored_row (rs ! j) (?ids ! j) (clock j)))"
    using got by (auto simp: read_columns_id simp del: upt_Suc)
  have kept: "\<forall>i. i \<notin> set ?ids \<longrightarrow> getById i ?db' = getById i db"
    using find_old_row [of _ ?base "length rs" "rows db" rs clock] by (simp add: getById_def)
  show ?thesis
    using run inc dist fresh got got_exact kept
    by (intro exI [of _ ?db'] exI [of _ ?ids]) (simp del: upt_Suc)
qed

theorem saveMany_ids_witness:
  "snd (saveMany example_clock example_rows (createTopicNewsRepository ''news.sqlite'')) = Inr [1, 2]
   \<and> getById 1 example_repo = Inr (Some (stored_row (example_rows ! 0) 1 ''2026-01-30 10:00:00''))
   \<and> getById 2 example_repo = Inr (Some (stored_row (example_rows ! 1) 2 ''2026-01-30 10:00:01''))"
proof -
  let ?db = "createTopicNewsRepository ''news.sqlite''"
  have counter: "0 \<le> sqlite_sequence ?db"
    by (simp add: createTopicNewsRepository_def)
  have next1: "next_rowid ?db = 1"
    by (simp add: next_rowid_def createTopicNewsRepository_def)
  have len: "length example_rows = 2"
    by (simp add: example_rows_def)
  have safe: "next_rowid ?db + int (length example_rows) \<le> MAX_SAFE_INTEGER + 1"
    unfolding next1 len by (simp add: MAX_SAFE_INTEGER_def)
  from saveMany_ids [OF counter safe, of example_clock]
  obtain db' ids where run: "saveMany example_clock example_rows ?db = (db', Inr ids)"
    and got: "\<forall>j < length example_rows. row_nul_free (stored_row (example_rows ! j) (ids ! j) (example_clock j))
               \<longrightarrow> getById (ids ! j) db'
                     = Inr (Some (stored_row (example_rows ! j) (ids ! j) (example_clock j)))"
    by blast
  have in_range: "example_rows = [] \<or> next_rowid ?db + int (length example_rows) \<le> MAX_ROWID + 1"
    unfolding next1 len by (simp add: MAX_ROWID_def)
  have "snd (saveMany example_clock example_rows ?db) = Inr [to_number 1, to_number 2]"
    unfolding saveMany_ok [OF in_range] next1 len by (simp add: upt_rec)
  then have ids: "ids = [1, 2]"
    unfolding run by (simp add: to_number_safe)
  have db': "example_repo = db'"
    by (simp add: example_repo_def run)
  have clean: "row_nul_free (stored_row (example_rows ! j) (ids ! j) (example_clock j))" if "j < 2" for j
    using that unfolding ids
    by (cases j; cases "j - 1")
      (simp_all add: row_nul_free_def nul_free_def stored_row_def example_rows_def example_clock_def
        digit_char_def)
  have "getById (ids ! 0) db' = Inr (Some (stored_row (example_rows ! 0) (ids ! 0) (example_clock 0)))"
    and "getById (ids ! 1) db' = Inr (Some (stored_row (example_rows ! 1) (ids ! 1) (example_clock 1)))"
    using got clean unfolding len by simp_all
  then show ?thesis
    unfolding db' run ids by (simp add: example_clock_def digit_char_def)
qed

text \<open>
  C5 as stated fails in two ways. With the counter at \<open>2^53 + 2\<close> the rowids of a batch
  of two are \<open>2^53 + 3\<close> and \<open>2^53 + 4\<close>; as numbers both are \<open>2^53 + 4\<close>, and saveMany
  returns the same id twice. And the row inserted with a NUL in its topic and title comes
  back from getById with both cut to \<open>a\<close>.
\<close>

theorem saveMany_ids_counterexample:
  "snd (saveMany example_clock example_rows rounding_repo)
     = Inr [9007199254740996, 9007199254740996]
   \<and> snd (saveMany example_clock nul_rows (createTopicNewsRepository ''news.sqlite'')) = Inr [1]
   \<and> getById 1 nul_repo
       = Inr (Some \<lparr>topic = ''a'', source = ''news.example.com'', row_title = ''a'',
                    row_url = ''https://news.example.com/a'', summary = ''Revenue rose.'',
                    row_id = 1, created_at = ''2026-01-30 10:00:00''\<rparr>)
   \<and> row_title (nul_rows ! 0) = [CHR ''a'', CHR 0x00, CHR ''b'']"
proof -
  have n0: "next_rowid rounding_repo = 9007199254740995"
    by (simp add: next_rowid_def rounding_repo_def)
  have len: "length example_rows = 2"
    by (simp add: example_rows_def)
  have r0: "example_rows = [] \<or> next_rowid rounding_repo + int (length example_rows) \<le> MAX_ROWID + 1"
    unfolding n0 len by (simp add: MAX_ROWID_def)
  have a: "to_number 9007199254740995 = 9007199254740996"
    by (simp add: to_number_def round_half_even_def)
  have b: "to_number 9007199254740996 = 9007199254740996"
    by (simp add: to_number_def round_half_even_def)
  have first: "snd (saveMany example_clock example_rows rounding_repo)
                 = Inr [9007199254740996, 9007199254740996]"
    unfolding saveMany_ok [OF r0] n0 len by (simp add: upt_rec a b)
  let ?db = "createTopicNewsRepository ''news.sqlite''"
  have n1: "next_rowid ?db = 1"
    by (simp add: next_rowid_def createTopicNewsRepository_def)
  have len1: "length nul_rows = 1"
    by (simp add: nul_rows_def)
  have r1: "nul_rows = [] \<or> next_rowid ?db + int (length nul_rows) \<le> MAX_ROWID + 1"
    unfolding n1 len1 by (simp add: MAX_ROWID_def)
  have second: "snd (saveMany example_clock nul_rows ?db) = Inr [1]"
    unfolding saveMany_ok [OF r1] n1 len1 by (simp add: to_number_safe)
  have third: "getById 1 nul_repo
       = Inr (Some \<lparr>topic = ''a'', source = ''news.example.com'', row_title = ''a'',
                    row_url = ''https://news.example.com/a'', summary = ''Revenue rose.'',
                    row_id = 1, created_at = ''2026-01-30 10:00:00''\<rparr>)"
    unfolding nul_repo_def saveMany_ok [OF r1] n1 len1
    by (simp add: getById_def read_row_def read_columns_def read_text_def stored_row_def
        nul_rows_def nul_text_def MAX_SAFE_INTEGER_def createTopicNewsRepository_def
        example_clock_def digit_char_def)
  have "row_title (nul_rows ! 0) = [CHR ''a'', CHR 0x00, CHR ''b'']"
    by (simp add: nul_rows_def nul_text_def)
  with first second third show ?thesis
    by blast
qed

section \<open>The repository: reading by topic\<close>

lemma order_by_created_at_desc_sorted:
  "sorted_wrt (\<lambda>a b. created_at b \<le> created_at a) (order_by_created_at_desc rs)"
proof -
  have "sorted (map created_at (sort_key created_at (rev rs)))"
    by simp
  then show ?thesis
    unfolding order_by_created_at_desc_def sorted_wrt_rev sorted_map .
qed

lemma set_order_by_created_at_desc [simp]: "set (order_by_created_at_desc rs) = set rs"
  by (simp add: order_by_created_at_desc_def)

lemma length_order_by_created_at_desc [simp]: "length (order_by_created_at_desc rs) = length rs"
  by (simp add: order_by_created_at_desc_def)

lemma sql_limit_sorted: "sorted_wrt R xs \<Longrightarrow> sorted_wrt R (sql_limit n xs)"
  by (simp add: sql_limit_def)

lemma set_sql_limit: "set (sql_limit n xs) \<subseteq> set xs"
  by (auto simp: sql_limit_def dest: in_set_takeD)

lemma read_columns_sorted:
  assumes "sorted_wrt (\<lambda>a b. created_at b \<le> created_at a) xs"
  shows "sorted_wrt (\<lambda>a b. created_at b \<le> created_at a) (map read_columns xs)"
  unfolding sorted_wrt_map
  by (rule sorted_wrt_mono_rel [OF _ assms]) (simp add: read_columns_def read_text_mono)

text \<open>
  C7, as the code has it. The limit is a row count, so not negative (10 when none is
  given). Whenever listByTopic returns, it returns at most that many rows; every returned
  row is a stored row of the queried topic as it is read back, so its topic is the queried
  topic cut before its first NUL code unit, which is the queried topic when that has no
  NUL; and the rows are in order of non-increasing \<^verbatim>\<open>created_at\<close>. It returns whenever
  the limit is a 64-bit integer and the stored ids are safe integers; otherwise it throws
  one of the two errors of the database layer.
\<close>

theorem listByTopic_bounded_sorted:
  "let n = (case limit of None \<Rightarrow> 10 | Some k \<Rightarrow> k) in
     (\<forall>res. listByTopic t limit db = Inr res \<longrightarrow>
        (0 \<le> n \<longrightarrow> int (length res) \<le> n)
        \<and> (\<forall>r \<in> set res. topic r = read_text t)
        \<and> (nul_free t \<longrightarrow> (\<forall>r \<in> set res. topic r = t))
        \<and> (\<forall>r \<in> set res. \<exists>s \<in> set (rows db). topic s = t \<and> r = read_columns s)
        \<and> sorted_wrt (\<lambda>a b. created_at b \<le> created_at a) res)
     \<and> (MIN_ROWID \<le> n \<and> n \<le> MAX_ROWID \<and> (\<forall>r \<in> set (rows db). \<bar>row_id r\<bar> \<le> MAX_SAFE_INTEGER)
          \<longrightarrow> (\<exists>res. listByTopic t limit db = Inr res))
     \<and> (\<forall>e. listByTopic t limit db = Inl e \<longrightarrow> e = DatatypeMismatch \<or> e = OutOfRange)"
proof -
  define n where "n = (case limit of None \<Rightarrow> 10 | Some k \<Rightarrow> k)"
  define m where "m = sql_limit n (order_by_created_at_desc (filter (\<lambda>r. topic r = t) (rows db)))"
  have call: "listByTopic t limit db
                = (if n < MIN_ROWID \<or> MAX_ROWID < n then Inl DatatypeMismatch else read_rows m)"
    by (simp add: listByTopic_def selectByTopic_def n_def m_def)
  have sub: "set m \<subseteq> {r \<in> set (rows db). topic r = t}"
    unfolding m_def using set_sql_limit [of n] by fastforce
  have len: "0 \<le> n \<longrightarrow> int (length m) \<le> n"
    by (auto simp: m_def sql_limit_def)
  have srt: "sorted_wrt (\<lambda>a b. created_at b \<le> created_at a) m"
    unfolding m_def by (rule sql_limit_sorted [OF order_by_created_at_desc_sorted])
  have returned: "(0 \<le> n \<longrightarrow> int (length res) \<le> n)
        \<and> (\<forall>r \<in> set res. topic r = read_text t)
        \<and> (nul_free t \<longrightarrow> (\<forall>r \<in> set res. topic r = t))
        \<and> (\<forall>r \<in> set res. \<exists>s \<in> set (rows db). topic s = t \<and> r = read_columns s)
        \<and> sorted_wrt (\<lambda>a b. created_at b \<le> created_at a) res"
    if "listByTopic t limit db = Inr res" for res
  proof -
    have "read_rows m = Inr res"
      using that unfolding call by (simp split: if_splits)
    then have res: "res = map read_columns m"
      by (rule read_rows_Inr)
    have from_rows: "\<forall>r \<in> set res. \<exists>s \<in> set (rows db). topic s = t \<and> r = read_columns s"
      unfolding res using sub by auto
    then have topics: "\<forall>r \<in> set res. topic r = read_text t"
      by (auto simp: read_columns_def)
    then have "nul_free t \<longrightarrow> (\<forall>r \<in> set res. topic r = t)"
      by (simp add: read_text_id)
    moreover have "sorted_wrt (\<lambda>a b. created_at b \<le> created_at a) res"
      unfolding res by (rule read_columns_sorted [OF srt])
    moreover have "0 \<le> n \<longrightarrow> int (length res) \<le> n"
      unfolding res using len by simp
    ultimately show ?thesis
      using topics from_rows by blast
  qed
  have returns: "\<exists>res. listByTopic t limit db = Inr res"
    if "MIN_ROWID \<le> n \<and> n \<le> MAX_ROWID \<and> (\<forall>r \<in> set (rows db). \<bar>row_id r\<bar> \<le> MAX_SAFE_INTEGER)"
  proof -
    have "\<forall>r \<in> set m. \<bar>row_id r\<bar> \<le> MAX_SAFE_INTEGER"
      using that sub by blast
    then have "read_rows m = Inr (map read_columns m)"
      by (rule read_rows_safe)
    then show ?thesis
      unfolding call using that by simp
  qed
  have thrown: "e = DatatypeMismatch \<or> e = OutOfRange" if "listByTopic t limit db = Inl e" for e
    using that read_rows_Inl [of m e] unfolding call by (auto split: if_splits)
  show ?thesis
    unfolding Let_def n_def [symmetric] using returned returns thrown by blast
qed

lemma example_repo_rows:
  "rows example_repo =
     [stored_row (example_rows ! 0) 1 ''2026-01-30 10:00:00'',
      stored_row (example_rows ! 1) 2 ''2026-01-30 10:00:01'']"
proof -
  let ?db = "createTopicNewsRepository ''news.sqlite''"
  have n1: "next_rowid ?db = 1"
    by (simp add: next_rowid_def createTopicNewsRepository_def)
  have len: "length example_rows = 2"
    by (simp add: example_rows_def)
  have ok: "example_rows = [] \<or> next_rowid ?db + int (length example_rows) \<le> MAX_ROWID + 1"
    unfolding n1 len by (simp add: MAX_ROWID_def)
  show ?thesis
    unfolding example_repo_def saveMany_ok [OF ok] n1 len
    by (simp add: upt_rec createTopicNewsRepository_def example_clock_def digit_char_def)
qed

lemma example_listByTopic:
  "listByTopic ''AAPL'' (Some 1) example_repo
     = Inr [stored_row (example_rows ! 1) 2 ''2026-01-30 10:00:01'']"
  by (simp add: listByTopic_def selectByTopic_def sql_limit_def order_by_created_at_desc_def
      example_repo_rows stored_row_def example_rows_def read_row_def read_columns_def read_text_def
      MIN_ROWID_def MAX_ROWID_def MAX_SAFE_INTEGER_def)

theorem listByTopic_bounded_sorted_witness:
  "listByTopic ''AAPL'' (Some 1) example_repo
     = Inr [stored_row (example_rows ! 1) 2 ''2026-01-30 10:00:01'']
   \<and> nul_free ''AAPL''
   \<and> topic (stored_row (example_rows ! 1) 2 ''2026-01-30 10:00:01'') = ''AAPL''
   \<and> MIN_ROWID \<le> 1 \<and> 1 \<le> MAX_ROWID
   \<and> (\<exists>res. listByTopic ''AAPL'' (Some 1) example_repo = Inr res \<and> int (length res) \<le> 1)"
proof -
  note inst = listByTopic_bounded_sorted [where limit = "Some 1" and t = "''AAPL''"
      and db = example_repo, unfolded Let_def option.case]
  have clean: "nul_free ''AAPL''"
    by (simp add: nul_free_def)
  have range: "MIN_ROWID \<le> 1 \<and> 1 \<le> MAX_ROWID"
    by (simp add: MIN_ROWID_def MAX_ROWID_def)
  have ids: "\<forall>r \<in> set (rows example_repo). \<bar>row_id r\<bar> \<le> MAX_SAFE_INTEGER"
    by (simp add: example_repo_rows stored_row_def MAX_SAFE_INTEGER_def)
  from inst range ids obtain res where res: "listByTopic ''AAPL'' (Some 1) example_repo = Inr res"
    by blast
  with inst have "int (length res) \<le> 1" and "\<forall>r \<in> set res. topic r = ''AAPL''"
    using clean by auto
  moreover have "res = [stored_row (example_rows ! 1) 2 ''2026-01-30 10:00:01'']"
    using res unfolding example_listByTopic by simp
  ultimately show ?thesis
    using res clean range by auto
qed

text \<open>
  C7 as stated fails on a topic with a NUL code unit: the row stored under the topic
  \<open>a\<close>, NUL, \<open>b\<close> is found by that topic, and comes back with the topic \<open>a\<close>.
\<close>

theorem listByTopic_nul_topic_counterexample:
  "listByTopic nul_text (Some 10) nul_repo
     = Inr [\<lparr>topic = ''a'', source = ''news.example.com'', row_title = ''a'',
             row_url = ''https://news.example.com/a'', summary = ''Revenue rose.'',
             row_id = 1, created_at = ''2026-01-30 10:00:00''\<rparr>]
   \<and> nul_text \<noteq> ''a''"
proof -
  let ?db = "createTopicNewsRepository ''news.sqlite''"
  have n1: "next_rowid ?db = 1"
    by (simp add: next_rowid_def createTopicNewsRepository_def)
  have len1: "length nul_rows = 1"
    by (simp add: nul_rows_def)
  have r1: "nul_rows = [] \<or> next_rowid ?db + int (length nul_rows) \<le> MAX_ROWID + 1"
    unfolding n1 len1 by (simp add: MAX_ROWID_def)
  show ?thesis
    unfolding nul_repo_def saveMany_ok [OF r1] n1 len1
    by (simp add: listByTopic_def selectByTopic_def sql_limit_def order_by_created_at_desc_def
        read_row_def read_columns_def read_text_def stored_row_def nul_rows_def nul_text_def
        MIN_ROWID_def MAX_ROWID_def MAX_SAFE_INTEGER_def createTopicNewsRepository_def
        example_clock_def digit_char_def)
qed

section \<open>The save tool on a cached handle\<close>

lemma rowsToSave_loop_eq:
  "rowsToSave_loop hostname_of tp answer ss acc =
     acc @ map (candidate_row hostname_of tp answer) (filter (\<lambda>s. trim_opt (url s) \<noteq> []) ss)"
  by (induction ss arbitrary: acc) (simp_all add: Let_def candidate_row_def)

lemma rowsToSave_eq:
  "rowsToSave hostname_of tp answer srcs =
     map (candidate_row hostname_of tp answer) (filter (\<lambda>s. trim_opt (url s) \<noteq> []) (take 5 srcs))"
  by (simp add: rowsToSave_def rowsToSave_loop_eq)

lemma length_rowsToSave: "length (rowsToSave hostname_of tp answer srcs) \<le> 5"
proof -
  have "length (filter (\<lambda>s. trim_opt (url s) \<noteq> []) (take 5 srcs)) \<le> length (take 5 srcs)"
    by (rule length_filter_le)
  then show ?thesis
    by (simp add: rowsToSave_eq)
qed

lemma save_to_db_cached:
  assumes "Map_get (cleanupSearchCache now (searchCache sv)) h = Some cached"
  shows "save_to_db hostname_of number_text clock now h topic_arg sv =
           (let cand = rowsToSave hostname_of (or_else (trim_opt topic_arg) (query cached))
                         (answerText cached) (sources cached);
                run = saveMany clock cand (topicNewsRepo sv)
            in (\<lparr>searchCache = cleanupSearchCache now (searchCache sv), topicNewsRepo = fst run\<rparr>,
                case snd run of
                  Inl e \<Rightarrow> Inl e
                | Inr ids \<Rightarrow>
                    (case savedRows ids (fst run) of
                       Inl e \<Rightarrow> Inl e
                     | Inr saved \<Rightarrow> Inr (saved_message number_text (fst run) ids saved))))"
  using assms
  by (simp add: save_to_db_def saveNewsRows_def Let_def split: prod.splits sum.splits)

text \<open>Within the safe integers a batch goes through and each new row reads back.\<close>

lemma saveMany_safe:
  assumes counter: "0 \<le> sqlite_sequence db"
    and safe: "next_rowid db + int (length rs) \<le> MAX_SAFE_INTEGER + 1"
  shows "snd (saveMany clock rs db) = Inr (map (\<lambda>j. next_rowid db + int j) [0..<length rs])"
    and "\<forall>i \<in> set (map (\<lambda>j. next_rowid db + int j) [0..<length rs]).
           \<bar>i\<bar> \<le> MAX_SAFE_INTEGER \<and> (\<exists>r. getById i (fst (saveMany clock rs db)) = Inr (Some r))"
proof -
  let ?base = "next_rowid db"
  let ?new = "map (\<lambda>j. stored_row (rs ! j) (?base + int j) (clock j)) [0..<length rs]"
  have pos: "0 < ?base"
    using counter next_rowid_gt_sequence [of db] by simp
  have in_range: "rs = [] \<or> ?base + int (length rs) \<le> MAX_ROWID + 1"
    using safe by (simp add: MAX_SAFE_INTEGER_def MAX_ROWID_def)
  have exact: "to_number (?base + int j) = ?base + int j" if "j < length rs" for j
    using that pos safe by (intro to_number_safe) (simp add: MAX_SAFE_INTEGER_def)
  then show "snd (saveMany clock rs db) = Inr (map (\<lambda>j. ?base + int j) [0..<length rs])"
    unfolding saveMany_ok [OF in_range] by simp
  have old: "\<forall>r \<in> set (rows db). row_id r < ?base"
    by (simp add: next_rowid_gt_rows)
  show "\<forall>i \<in> set (map (\<lambda>j. ?base + int j) [0..<length rs]).
           \<bar>i\<bar> \<le> MAX_SAFE_INTEGER \<and> (\<exists>r. getById i (fst (saveMany clock rs db)) = Inr (Some r))"
  proof
    fix i assume "i \<in> set (map (\<lambda>j. ?base + int j) [0..<length rs])"
    then obtain j where j: "j < length rs" and i: "i = ?base + int j"
      by auto
    have small: "\<bar>i\<bar> \<le> MAX_SAFE_INTEGER"
      unfolding i using j pos safe by simp
    have "find (\<lambda>r. row_id r = ?base + int j) (rows db @ ?new)
            = Some (stored_row (rs ! j) (?base + int j) (clock j))"
      by (rule find_new_row [OF j old])
    moreover have "read_row (stored_row (rs ! j) (?base + int j) (clock j))
                     = Inr (read_columns (stored_row (rs ! j) (?base + int j) (clock j)))"
      using small unfolding i by (simp add: read_row_def stored_row_def)
    ultimately have "getById i (fst (saveMany clock rs db))
                       = Inr (Some (read_columns (stored_row (rs ! j) (?base + int j) (clock j))))"
      unfolding saveMany_ok [OF in_range] i getById_def by (simp del: upt_Suc)
    with small show "\<bar>i\<bar> \<le> MAX_SAFE_INTEGER \<and> (\<exists>r. getById i (fst (saveMany clock rs db)) = Inr (Some r))"
      by blast
  qed
qed

lemma savedRows_all_found:
  "\<forall>i \<in> set ids. \<exists>r. getById i db = Inr (Some r)
     \<Longrightarrow> \<exists>saved. savedRows ids db = Inr saved \<and> length saved = length ids"
proof (induction ids)
  case Nil
  show ?case by simp
next
  case (Cons i ids)
  then obtain r saved where "getById i db = Inr (Some r)"
    and "savedRows ids db = Inr saved" "length saved = length ids"
    by auto
  then show ?case by simp
qed

lemma saved_message_prefix:
  "\<exists>rest. saved_message number_text db ids saved =
     ''Saved '' @ decimal (length ids) @ '' row(s) to SQLite table ''
       @ apostrophe @ ''topic_news'' @ apostrophe @ '' at '' @ dbPath db
       @ ''.'' @ newline @ ''ids: ''
       @ or_else (join '', '' (map (show_number number_text) ids)) ''(none)'' @ rest"
  by (simp add: saved_message_def Let_def del: decimal.simps)

text \<open>
  C4, as the code has it. When the handle is in the cache at the read of the save tool,
  the tool derives its candidate rows from the first five cached sources, one row, in
  order, for each source whose URL is present and not blank after trimming, so at most
  five; a source without such a URL is skipped. The URL need not parse: the host of a URL
  that the parser rejects is recorded as \<open>unknown\<close> and the row is derived all the same.
  The topic of the rows is the query when no topic is supplied. The rows are written with
  saveMany, which leaves the repository of the server: when it returns, one row per
  candidate has been stored, in order, under consecutive rowids, and its ids are those
  rowids as numbers; the tool then reads the saved rows back and its message reports the
  count and the ids. When saveMany or a read throws, the tool throws the same. With the
  new ids within the safe integers nothing throws, the ids are the rowids themselves and
  all saved rows are read back.
\<close>

theorem save_derives_rows:
  assumes "Map_get (cleanupSearchCache now (searchCache sv)) h = Some cached"
  shows "let tp = or_else (trim_opt topic_arg) (query cached);
             cand = rowsToSave hostname_of tp (answerText cached) (sources cached);
             run = saveMany clock cand (topicNewsRepo sv);
             res = save_to_db hostname_of number_text clock now h topic_arg sv;
             base = next_rowid (topicNewsRepo sv)
         in cand = map (candidate_row hostname_of tp (answerText cached))
                     (filter (\<lambda>s. trim_opt (url s) \<noteq> []) (take 5 (sources cached)))
          \<and> length cand \<le> 5
          \<and> (topic_arg = None \<longrightarrow> tp = query cached)
          \<and> (\<forall>r \<in> set cand. topic r = tp \<and> row_url r \<noteq> []
                \<and> source r = (case hostname_of (row_url r) of Some hn \<Rightarrow> hn | None \<Rightarrow> ''unknown''))
          \<and> topicNewsRepo (fst res) = fst run
          \<and> (\<forall>ids. snd run = Inr ids \<longrightarrow>
                length ids = length cand
                \<and> ids = map (\<lambda>j. to_number (base + int j)) [0..<length cand]
                \<and> rows (fst run) = rows (topicNewsRepo sv)
                     @ map (\<lambda>j. stored_row (cand ! j) (base + int j) (clock j)) [0..<length cand]
                \<and> (\<forall>saved. savedRows ids (fst run) = Inr saved \<longrightarrow>
                      snd res = Inr (saved_message number_text (fst run) ids saved)
                      \<and> (\<exists>rest. snd res = Inr
                            (''Saved '' @ decimal (length cand) @ '' row(s) to SQLite table ''
                               @ apostrophe @ ''topic_news'' @ apostrophe @ '' at ''
                               @ dbPath (topicNewsRepo sv) @ ''.'' @ newline @ ''ids: ''
                               @ or_else (join '', '' (map (show_number number_text) ids)) ''(none)''
                               @ rest)))
                \<and> (\<forall>e. savedRows ids (fst run) = Inl e \<longrightarrow> snd res = Inl e))
          \<and> (\<forall>e. snd run = Inl e \<longrightarrow> e = SqliteFull \<and> snd res = Inl e)
          \<and> (0 \<le> sqlite_sequence (topicNewsRepo sv) \<and> base + int (length cand) \<le> MAX_SAFE_INTEGER + 1
               \<longrightarrow> snd run = Inr (map (\<lambda>j. base + int j) [0..<length cand])
                  \<and> (\<exists>saved rest.
                        savedRows (map (\<lambda>j. base + int j) [0..<length cand]) (fst run) = Inr saved
                        \<and> length saved = length cand
                        \<and> snd res = Inr
                            (''Saved '' @ decimal (length cand) @ '' row(s) to SQLite table ''
                               @ apostrophe @ ''topic_news'' @ apostrophe @ '' at ''
                               @ dbPath (topicNewsRepo sv) @ ''.'' @ newline @ ''ids: ''
                               @ or_else (join '', ''
                                    (map show_int (map (\<lambda>j. base + int j) [0..<length cand])))
                                  ''(none)''
                               @ rest)))"
proof -
  define tp where "tp = or_else (trim_opt topic_arg) (query cached)"
  define cand where "cand = rowsToSave hostname_of tp (answerText cached) (sources cached)"
  define run where "run = saveMany clock cand (topicNewsRepo sv)"
  define res where "res = save_to_db hostname_of number_text clock now h topic_arg sv"
  define base where "base = next_rowid (topicNewsRepo sv)"
  have res_eq: "res = (\<lparr>searchCache = cleanupSearchCache now (searchCache sv), topicNewsRepo = fst run\<rparr>,
                       case snd run of
                         Inl e \<Rightarrow> Inl e
                       | Inr ids \<Rightarrow>
                           (case savedRows ids (fst run) of
                              Inl e \<Rightarrow> Inl e
                            | Inr saved \<Rightarrow> Inr (saved_message number_text (fst run) ids saved)))"
    unfolding res_def save_to_db_cached [OF assms] Let_def run_def cand_def tp_def ..
  have c1: "cand = map (candidate_row hostname_of tp (answerText cached))
                     (filter (\<lambda>s. trim_opt (url s) \<noteq> []) (take 5 (sources cached)))"
    unfolding cand_def by (rule rowsToSave_eq)
  have c2: "length cand \<le> 5"
    unfolding cand_def by (rule length_rowsToSave)
  have c3: "topic_arg = None \<longrightarrow> tp = query cached"
    by (simp add: tp_def trim_opt_def or_else_def)
  have c4: "\<forall>r \<in> set cand. topic r = tp \<and> row_url r \<noteq> []
              \<and> source r = (case hostname_of (row_url r) of Some hn \<Rightarrow> hn | None \<Rightarrow> ''unknown'')"
    unfolding c1 by (auto simp: candidate_row_def sourceFromUrl_def)
  have c5: "topicNewsRepo (fst res) = fst run"
    unfolding res_eq by simp
  have path: "dbPath (fst run) = dbPath (topicNewsRepo sv)"
    unfolding run_def by (rule saveMany_dbPath)
  have prefix: "\<exists>rest. saved_message number_text (fst run) ids saved =
                  ''Saved '' @ decimal (length ids) @ '' row(s) to SQLite table ''
                    @ apostrophe @ ''topic_news'' @ apostrophe @ '' at ''
                    @ dbPath (topicNewsRepo sv) @ ''.'' @ newline @ ''ids: ''
                    @ or_else (join '', '' (map (show_number number_text) ids)) ''(none)'' @ rest"
    for ids saved
    using saved_message_prefix [of number_text "fst run" ids saved] unfolding path .
  have c6: "length ids = length cand
            \<and> ids = map (\<lambda>j. to_number (base + int j)) [0..<length cand]
            \<and> rows (fst run) = rows (topicNewsRepo sv)
                 @ map (\<lambda>j. stored_row (cand ! j) (base + int j) (clock j)) [0..<length cand]
            \<and> (\<forall>saved. savedRows ids (fst run) = Inr saved \<longrightarrow>
                  snd res = Inr (saved_message number_text (fst run) ids saved)
                  \<and> (\<exists>rest. snd res = Inr
                        (''Saved '' @ decimal (length cand) @ '' row(s) to SQLite table ''
                           @ apostrophe @ ''topic_news'' @ apostrophe @ '' at ''
                           @ dbPath (topicNewsRepo sv) @ ''.'' @ newline @ ''ids: ''
                           @ or_else (join '', '' (map (show_number number_text) ids)) ''(none)''
                           @ rest)))
            \<and> (\<forall>e. savedRows ids (fst run) = Inl e \<longrightarrow> snd res = Inl e)"
    if ok: "snd run = Inr ids" for ids
  proof -
    have bound: "cand = [] \<or> base + int (length cand) \<le> MAX_ROWID + 1"
      using ok unfolding run_def base_def by (rule saveMany_Inr)
    note closed = saveMany_ok [OF bound [unfolded base_def], of clock, folded run_def base_def]
    have ids: "ids = map (\<lambda>j. to_number (base + int j)) [0..<length cand]"
      using ok unfolding closed by simp
    then have len: "length ids = length cand"
      by simp
    have rws: "rows (fst run) = rows (topicNewsRepo sv)
                 @ map (\<lambda>j. stored_row (cand ! j) (base + int j) (clock j)) [0..<length cand]"
      unfolding closed by (simp del: upt_Suc)
    have msg: "snd res = Inr (saved_message number_text (fst run) ids saved)
                  \<and> (\<exists>rest. snd res = Inr
                        (''Saved '' @ decimal (length cand) @ '' row(s) to SQLite table ''
                           @ apostrophe @ ''topic_news'' @ apostrophe @ '' at ''
                           @ dbPath (topicNewsRepo sv) @ ''.'' @ newline @ ''ids: ''
                           @ or_else (join '', '' (map (show_number number_text) ids)) ''(none)''
                           @ rest))"
      if "savedRows ids (fst run) = Inr saved" for saved
      using prefix [of ids saved] unfolding res_eq snd_conv ok sum.case that len by simp
    have thrown: "snd res = Inl e" if "savedRows ids (fst run) = Inl e" for e
      unfolding res_eq snd_conv ok sum.case that by simp
    show ?thesis
      using len ids rws msg thrown by blast
  qed
  have c7: "e = SqliteFull \<and> snd res = Inl e" if "snd run = Inl e" for e
    using that saveMany_Inl [of clock cand "topicNewsRepo sv" e]
    unfolding res_eq snd_conv run_def by simp
  have c8: "snd run = Inr (map (\<lambda>j. base + int j) [0..<length cand])
            \<and> (\<exists>saved rest.
                  savedRows (map (\<lambda>j. base + int j) [0..<length cand]) (fst run) = Inr saved
                  \<and> length saved = length cand
                  \<and> snd res = Inr
                      (''Saved '' @ decimal (length cand) @ '' row(s) to SQLite table ''
                         @ apostrophe @ ''topic_news'' @ apostrophe @ '' at ''
                         @ dbPath (topicNewsRepo sv) @ ''.'' @ newline @ ''ids: ''
                         @ or_else (join '', ''
                              (map show_int (map (\<lambda>j. base + int j) [0..<length cand])))
                            ''(none)''
                         @ rest))"
    if counter: "0 \<le> sqlite_sequence (topicNewsRepo sv)"
      and safe: "base + int (length cand) \<le> MAX_SAFE_INTEGER + 1"
  proof -
    let ?ids = "map (\<lambda>j. base + int j) [0..<length cand]"
    note facts = saveMany_safe [OF counter safe [unfolded base_def], of clock,
        folded run_def base_def]
    have ok: "snd run = Inr ?ids"
      by (rule facts(1))
    have "\<forall>i \<in> set ?ids. \<exists>r. getById i (fst run) = Inr (Some r)"
      using facts(2) by blast
    then obtain saved where saved: "savedRows ?ids (fst run) = Inr saved" "length saved = length ?ids"
      using savedRows_all_found by blast
    have shown: "map (show_number number_text) ?ids = map show_int ?ids"
      using facts(2) by (intro map_cong refl) (auto simp: show_number_def)
    from c6 [OF ok] saved(1) obtain rest where
      "snd res = Inr
          (''Saved '' @ decimal (length cand) @ '' row(s) to SQLite table ''
             @ apostrophe @ ''topic_news'' @ apostrophe @ '' at ''
             @ dbPath (topicNewsRepo sv) @ ''.'' @ newline @ ''ids: ''
             @ or_else (join '', '' (map (show_number number_text) ?ids)) ''(none)''
             @ rest)"
      by blast
    then show ?thesis
      unfolding shown using ok saved by auto
  qed
  show ?thesis
    unfolding Let_def tp_def [symmetric] cand_def [symmetric] run_def [symmetric]
      res_def [symmetric] base_def [symmetric]
    using c1 c2 c3 c4 c5 c6 c7 c8 by blast
qed

lemma example_cleanup:
  "cleanupSearchCache 2000 (searchCache example_server) = [(''h1'', example_result)]"
  by (simp add: example_server_def cleanupSearchCache_def delete_expired_def expired_def
      example_result_def SEARCH_CACHE_TTL_MS_def SEARCH_CACHE_MAX_ITEMS_def)

lemma example_cached:
  "Map_get (cleanupSearchCache 2000 (searchCache example_server)) ''h1'' = Some example_result"
  by (simp add: example_cleanup Map_get_def)

lemma example_candidates:
  "rowsToSave example_hostname_of ''AAPL earnings'' ''Apple reported earnings.'' example_sources
     = [\<lparr>topic = ''AAPL earnings'', source = ''news.example.com'',
         row_title = ''Apple beats estimates'', row_url = ''https://news.example.com/aapl'',
         summary = ''Revenue rose.''\<rparr>,
        \<lparr>topic = ''AAPL earnings'', source = ''unknown'', row_title = ''Untitled'',
         row_url = ''not a url'', summary = ''Apple reported earnings.''\<rparr>]"
  by (simp add: rowsToSave_def example_sources_def Let_def trim_opt_def trim_def is_ws_def
      or_else_def sourceFromUrl_def example_hostname_of_def toSummary_def)

lemma example_next_rowid: "next_rowid (topicNewsRepo example_server) = 1"
  by (simp add: next_rowid_def example_server_def createTopicNewsRepository_def)

theorem save_derives_rows_witness:
  "Map_get (cleanupSearchCache 2000 (searchCache example_server)) ''h1'' = Some example_result
   \<and> length (rowsToSave example_hostname_of ''AAPL earnings'' ''Apple reported earnings.''
               example_sources) = 2
   \<and> map topic (rows (topicNewsRepo
         (fst (save_to_db example_hostname_of show_int example_clock 2000 ''h1'' None
                 example_server))))
       = [''AAPL earnings'', ''AAPL earnings'']
   \<and> map row_id (rows (topicNewsRepo
         (fst (save_to_db example_hostname_of show_int example_clock 2000 ''h1'' None
                 example_server))))
       = [1, 2]
   \<and> (\<exists>rest. snd (save_to_db example_hostname_of show_int example_clock 2000 ''h1'' None
                      example_server)
         = Inr (''Saved 2 row(s) to SQLite table '' @ apostrophe @ ''topic_news'' @ apostrophe
                  @ '' at news.sqlite.'' @ newline @ ''ids: 1, 2'' @ rest))"
proof -
  let ?res = "save_to_db example_hostname_of show_int example_clock 2000 ''h1'' None example_server"
  let ?cand = "rowsToSave example_hostname_of ''AAPL earnings'' ''Apple reported earnings.''
                 example_sources"
  let ?run = "saveMany example_clock ?cand (topicNewsRepo example_server)"
  have tp: "or_else (trim_opt None) (query example_result) = ''AAPL earnings''"
    by (simp add: or_else_def trim_opt_def example_result_def)
  have fields: "answerText example_result = ''Apple reported earnings.''"
    "sources example_result = example_sources"
    by (simp_all add: example_result_def)
  have len: "length ?cand = 2"
    by (simp add: example_candidates)
  note inst = save_derives_rows [OF example_cached, of None example_hostname_of example_clock
      show_int, unfolded Let_def tp fields example_next_rowid len]
  have safe: "0 \<le> sqlite_sequence (topicNewsRepo example_server) \<and> 1 + int 2 \<le> MAX_SAFE_INTEGER + 1"
    by (simp add: example_server_def createTopicNewsRepository_def MAX_SAFE_INTEGER_def)
  have repo: "topicNewsRepo (fst ?res) = fst ?run"
    using inst by blast
  have ok: "snd ?run = Inr (map (\<lambda>j. 1 + int j) [0..<2])"
    using inst safe by blast
  have rws: "rows (fst ?run) = rows (topicNewsRepo example_server)
               @ map (\<lambda>j. stored_row (?cand ! j) (1 + int j) (example_clock j)) [0..<2]"
    using inst ok by blast
  have stored: "rows (fst ?run) = [stored_row (?cand ! 0) 1 (example_clock 0),
                            stored_row (?cand ! 1) 2 (example_clock 1)]"
    unfolding rws by (simp add: upt_rec example_server_def createTopicNewsRepository_def)
  obtain rest where "snd ?res = Inr
      (''Saved '' @ decimal 2 @ '' row(s) to SQLite table ''
         @ apostrophe @ ''topic_news'' @ apostrophe @ '' at ''
         @ dbPath (topicNewsRepo example_server) @ ''.'' @ newline @ ''ids: ''
         @ or_else (join '', '' (map show_int (map (\<lambda>j. 1 + int j) [0..<2]))) ''(none)''
         @ rest)"
    using inst safe by blast
  then have "snd ?res = Inr (''Saved 2 row(s) to SQLite table '' @ apostrophe @ ''topic_news''
                               @ apostrophe @ '' at news.sqlite.'' @ newline @ ''ids: 1, 2'' @ rest)"
    by (simp add: upt_rec show_int_def digit_char_def or_else_def example_server_def
        createTopicNewsRepository_def)
  then show ?thesis
    unfolding repo stored using example_cached
    by (auto simp: example_candidates stored_row_def)
qed

text \<open>
  C4 as stated asks for a parseable URL. The second source of the example has the URL
  \<^verbatim>\<open>not a url\<close>, which the parser rejects; the save tool stores a row for it, with
  source \<open>unknown\<close>.
\<close>

theorem save_unparseable_url_counterexample:
  "example_hostname_of ''not a url'' = None
   \<and> map row_url (rows (topicNewsRepo
        (fst (save_to_db example_hostname_of show_int example_clock 2000 ''h1'' None
                example_server))))
       = [''https://news.example.com/aapl'', ''not a url'']
   \<and> map source (rows (topicNewsRepo
        (fst (save_to_db example_hostname_of show_int example_clock 2000 ''h1'' None
                example_server))))
       = [''news.example.com'', ''unknown'']"
proof -
  have tp: "or_else (trim_opt None) (query example_result) = ''AAPL earnings''"
    by (simp add: or_else_def trim_opt_def example_result_def)
  have fields: "answerText example_result = ''Apple reported earnings.''"
    "sources example_result = example_sources"
    by (simp_all add: example_result_def)
  have ok: "[a, b] = [] \<or> next_rowid (topicNewsRepo example_server) + int (length [a, b]) \<le> MAX_ROWID + 1"
    for a b :: TopicNewsInsert
    unfolding example_next_rowid by (simp add: MAX_ROWID_def)
  show ?thesis
    unfolding save_to_db_cached [OF example_cached] Let_def tp fields example_candidates
      saveMany_ok [OF ok] example_next_rowid
    by (simp add: upt_rec stored_row_def example_server_def createTopicNewsRepository_def
        example_hostname_of_def)
qed

section \<open>The save tool when no source has a URL\<close>

text \<open>
  C10. When the handle is in the cache at the read of the save tool and none of the first
  five cached sources has a URL (the field is absent, or blank once trimmed; an empty
  source list is the case of no sources), the tool inserts nothing, and still answers in
  the shape of a success: zero rows saved, and \<open>(none)\<close> for the ids.
\<close>

theorem save_without_urls:
  assumes "Map_get (cleanupSearchCache now (searchCache sv)) h = Some cached"
    and "\<forall>s \<in> set (take 5 (sources cached)). trim_opt (url s) = []"
  shows "save_to_db hostname_of number_text clock now h topic_arg sv
           = (sv\<lparr>searchCache := cleanupSearchCache now (searchCache sv)\<rparr>,
              Inr (''Saved 0 row(s) to SQLite table '' @ apostrophe @ ''topic_news'' @ apostrophe
                     @ '' at '' @ dbPath (topicNewsRepo sv) @ ''.'' @ newline @ ''ids: (none)''))
         \<and> topicNewsRepo (fst (save_to_db hostname_of number_text clock now h topic_arg sv))
             = topicNewsRepo sv
         \<and> snd (save_to_db hostname_of number_text clock now h topic_arg sv) \<noteq> Inr (no_cached_message h)"
proof -
  have "filter (\<lambda>s. trim_opt (url s) \<noteq> []) (take 5 (sources cached)) = []"
    using assms(2) by (simp add: filter_empty_conv)
  then have none: "rowsToSave hostname_of tp (answerText cached) (sources cached) = []" for tp
    by (simp add: rowsToSave_eq)
  have eq: "save_to_db hostname_of number_text clock now h topic_arg sv
           = (sv\<lparr>searchCache := cleanupSearchCache now (searchCache sv)\<rparr>,
              Inr (''Saved 0 row(s) to SQLite table '' @ apostrophe @ ''topic_news'' @ apostrophe
                     @ '' at '' @ dbPath (topicNewsRepo sv) @ ''.'' @ newline @ ''ids: (none)''))"
    unfolding save_to_db_cached [OF assms(1)] Let_def none
    by (simp add: saveMany_def saved_message_def or_else_def digit_char_def)
  show ?thesis
    unfolding eq by (simp add: no_cached_message_def)
qed

lemma nolink_cached:
  "Map_get (cleanupSearchCache 2000 (searchCache nolink_server)) ''h3''
     = Some (example_result\<lparr>sources :=
               [\<lparr>title = Some ''No link'', url = None, date = None, snippet = None\<rparr>]\<rparr>)"
  by (simp add: nolink_server_def cleanupSearchCache_def delete_expired_def expired_def
      example_result_def SEARCH_CACHE_TTL_MS_def SEARCH_CACHE_MAX_ITEMS_def Map_get_def)

theorem save_without_urls_witness:
  "snd (save_to_db example_hostname_of show_int example_clock 2000 ''h3'' (Some ''AAPL'') nolink_server)
     = Inr (''Saved 0 row(s) to SQLite table '' @ apostrophe @ ''topic_news'' @ apostrophe
              @ '' at news.sqlite.'' @ newline @ ''ids: (none)'')
   \<and> rows (topicNewsRepo
        (fst (save_to_db example_hostname_of show_int example_clock 2000 ''h3'' (Some ''AAPL'')
                nolink_server)))
       = []"
proof -
  let ?cached = "example_result\<lparr>sources :=
                   [\<lparr>title = Some ''No link'', url = None, date = None, snippet = None\<rparr>]\<rparr>"
  have nourl: "\<forall>s \<in> set (take 5 (sources ?cached)). trim_opt (url s) = []"
    by (simp add: trim_opt_def)
  from save_without_urls [OF nolink_cached nourl, of example_hostname_of show_int example_clock
      "Some ''AAPL''"]
  show ?thesis
    by (simp add: nolink_server_def createTopicNewsRepository_def)
qed

section \<open>Streaming a turn\<close>

lemma extractChunkText_loop_eq:
  "extractChunkText_loop bs acc = acc @ concat (map block_text bs)"
  by (induction bs acc rule: extractChunkText_loop.induct) (simp_all add: block_text_def)

lemma extractChunkText_eq: "extractChunkText c = chunk_text c"
  by (cases c) (simp_all add: chunk_text_def extractChunkText_loop_eq)

lemma model_fragments_Cons:
  "model_fragments (NotArray # cs) = model_fragments cs"
  "model_fragments (Tuple m node # cs) =
     (if node = Some ''model'' \<and> chunk_text m \<noteq> [] then chunk_text m # model_fragments cs
      else model_fragments cs)"
  by (simp_all add: model_fragments_def)

lemma runTurn_loop_eq:
  "runTurn_loop cs (streamed, out) =
     (streamed @ concat (model_fragments cs), out @ model_fragments cs)"
proof (induction cs arbitrary: streamed out)
  case Nil
  show ?case by (simp add: model_fragments_def)
next
  case (Cons c cs)
  show ?case
  proof (cases c)
    case NotArray
    then show ?thesis by (simp add: Cons.IH model_fragments_Cons)
  next
    case (Tuple m node)
    then show ?thesis
      by (simp add: Cons.IH model_fragments_Cons extractChunkText_eq Let_def)
  qed
qed

lemma model_fragments_nonempty: "t \<in> set (model_fragments stream) \<Longrightarrow> t \<noteq> []"
  by (simp add: model_fragments_def)

lemma concat_model_fragments_empty:
  "concat (model_fragments stream) = [] \<longleftrightarrow> model_fragments stream = []"
proof
  assume "concat (model_fragments stream) = []"
  then have "\<forall>t \<in> set (model_fragments stream). t = []"
    by simp
  then show "model_fragments stream = []"
    using model_fragments_nonempty [of _ stream] by (cases "model_fragments stream") auto
qed simp

text \<open>
  C9. The writes of a turn are the non-empty texts of the stream items that come from the
  model node, in arrival order, each of them the text of such an item, followed by one
  closing write: the marker \<open>(no assistant text returned)\<close> when the concatenation of the
  fragments is empty, and a bare line end otherwise. The closing write is the marker
  exactly when nothing was streamed.
\<close>

theorem runTurn_streams_model_text:
  "runTurn stream =
     model_fragments stream
       @ [if concat (model_fragments stream) = [] then ''(no assistant text returned)'' @ newline
          else newline]
   \<and> concat (runTurn stream) =
       concat (model_fragments stream)
         @ (if concat (model_fragments stream) = [] then ''(no assistant text returned)'' @ newline
            else newline)
   \<and> (\<forall>t \<in> set (model_fragments stream).
         t \<noteq> [] \<and> (\<exists>m. Tuple m (Some ''model'') \<in> set stream \<and> t = extractChunkText m))
   \<and> (last (runTurn stream) = ''(no assistant text returned)'' @ newline
        \<longleftrightarrow> concat (model_fragments stream) = [])"
proof -
  have run: "runTurn stream =
     model_fragments stream
       @ [if concat (model_fragments stream) = [] then ''(no assistant text returned)'' @ newline
          else newline]"
    by (simp add: runTurn_def runTurn_loop_eq no_text_marker_def)
  have from_model: "\<forall>t \<in> set (model_fragments stream).
         t \<noteq> [] \<and> (\<exists>m. Tuple m (Some ''model'') \<in> set stream \<and> t = extractChunkText m)"
    by (auto simp: model_fragments_def extractChunkText_eq split: chunk.splits if_splits)
  have closing: "last (runTurn stream) = ''(no assistant text returned)'' @ newline
        \<longleftrightarrow> concat (model_fragments stream) = []"
    unfolding run by (simp add: newline_def)
  have "concat (runTurn stream) =
       concat (model_fragments stream)
         @ (if concat (model_fragments stream) = [] then ''(no assistant text returned)'' @ newline
            else newline)"
    unfolding run by simp
  with run from_model closing show ?thesis
    by blast
qed


theorem runTurn_streams_model_text_witness:
  "runTurn example_stream = [''Hel'', ''lo!'', newline]
   \<and> concat (runTurn example_stream) = ''Hello!'' @ newline
   \<and> runTurn silent_stream = [''(no assistant text returned)'' @ newline]"
proof -
  have f1: "model_fragments example_stream = [''Hel'', ''lo!'']"
    by (simp add: model_fragments_def example_stream_def chunk_text_def block_text_def)
  have f2: "model_fragments silent_stream = []"
    by (simp add: model_fragments_def silent_stream_def)
  have "runTurn example_stream = [''Hel'', ''lo!'', newline]"
    using runTurn_streams_model_text [of example_stream, THEN conjunct1] unfolding f1 by simp
  moreover have "concat (runTurn example_stream) = ''Hello!'' @ newline"
    using runTurn_streams_model_text [of example_stream, THEN conjunct2, THEN conjunct1]
    unfolding f1 by simp
  moreover have "runTurn silent_stream = [''(no assistant text returned)'' @ newline]"
    using runTurn_streams_model_text [of silent_stream, THEN conjunct1] unfolding f2 by simp
  ultimately show ?thesis
    by blast
qed

section \<open>The cache: the newest entry survives cleanup\<close>

lemma insort_key_snoc:
  "\<forall>x \<in> set ys. f x \<le> f r \<Longrightarrow> f a \<le> f r \<Longrightarrow> insort_key f a (ys @ [r]) = insort_key f a ys @ [r]"
  by (induction ys) auto

lemma sort_key_snoc:
  "\<forall>x \<in> set xs. f x \<le> f r \<Longrightarrow> sort_key f (xs @ [r]) = sort_key f xs @ [r]"
proof (induction xs)
  case Nil
  show ?case by simp
next
  case (Cons x xs)
  then have "sort_key f (xs @ [r]) = sort_key f xs @ [r]"
    by simp
  moreover have "\<forall>y \<in> set (sort_key f xs). f y \<le> f r" "f x \<le> f r"
    using Cons.prems by simp_all
  ultimately show ?case
    by (simp add: insort_key_snoc)
qed

lemma cleanup_keeps_newest:
  assumes keys: "distinct (map fst (c @ [(h, v)]))"
    and newest: "\<forall>e \<in> set c. createdAt (snd e) \<le> createdAt v"
    and fresh: "\<not> expired now v"
  shows "\<exists>c'. cleanupSearchCache now (c @ [(h, v)]) = c' @ [(h, v)] \<and> set c' \<subseteq> set c"
proof -
  define s0 where "s0 = filter (\<lambda>e. \<not> expired now (snd e)) c"
  define n where "n = length (s0 @ [(h, v)]) - SEARCH_CACHE_MAX_ITEMS"
  define t where "t = take n (sort_key (\<lambda>e. createdAt (snd e)) s0)"
  have s: "filter (\<lambda>e. \<not> expired now (snd e)) (c @ [(h, v)]) = s0 @ [(h, v)]"
    using fresh by (simp add: s0_def)
  have "\<forall>e \<in> set s0. createdAt (snd e) \<le> createdAt (snd (h, v))"
    using newest by (simp add: s0_def)
  then have srt: "sort_key (\<lambda>e. createdAt (snd e)) (s0 @ [(h, v)])
                    = sort_key (\<lambda>e. createdAt (snd e)) s0 @ [(h, v)]"
    by (rule sort_key_snoc [where f = "\<lambda>e. createdAt (snd e)"])
  have "n \<le> length s0"
    by (simp add: n_def SEARCH_CACHE_MAX_ITEMS_def)
  then have tk: "take n (sort_key (\<lambda>e. createdAt (snd e)) s0 @ [(h, v)]) = t"
    by (simp add: t_def)
  have ts: "set t \<subseteq> set c"
    unfolding t_def s0_def
    using set_take_subset [of n "sort_key (\<lambda>e. createdAt (snd e)) (filter (\<lambda>e. \<not> expired now (snd e)) c)"]
    by auto
  have "(h, v) \<notin> set c"
    using keys by (auto simp: image_iff)
  then have out: "(h, v) \<notin> set t"
    using ts by blast
  have "cleanupSearchCache now (c @ [(h, v)]) = filter (\<lambda>e. e \<notin> set t) s0 @ [(h, v)]"
    unfolding cleanup_distinct_eq [OF keys] Let_def s srt n_def [symmetric] tk
    using out by simp
  moreover have "set (filter (\<lambda>e. e \<notin> set t) s0) \<subseteq> set c"
    by (auto simp: s0_def)
  ultimately show ?thesis
    by blast
qed

lemma Map_get_snoc:
  assumes "distinct (map fst (c @ [(h, v)]))"
  shows "Map_get (c @ [(h, v)]) h = Some v"
proof -
  have "h \<notin> fst ` set c"
    using assms by auto
  then have "map_of c h = None"
    by (simp add: map_of_eq_None_iff)
  then show ?thesis
    by (simp add: Map_get_def map_add_def)
qed

lemma put_cleanup_get:
  assumes fresh: "h \<notin> Map_keys c"
    and keys: "distinct (map fst c)"
    and newest: "\<forall>e \<in> set c. createdAt (snd e) \<le> createdAt v"
    and t1: "t_cleanup - createdAt v \<le> SEARCH_CACHE_TTL_MS"
  shows "\<exists>c'. cleanupSearchCache t_cleanup (Map_set c h v) = c' @ [(h, v)]
              \<and> set c' \<subseteq> set c \<and> distinct (map fst (c' @ [(h, v)]))"
proof -
  have set_eq: "Map_set c h v = c @ [(h, v)]"
    using fresh by (simp add: Map_set_def)
  have d1: "distinct (map fst (c @ [(h, v)]))"
    using fresh keys by (simp add: Map_keys_def)
  have "\<not> expired t_cleanup v"
    using t1 by (simp add: expired_def)
  from cleanup_keeps_newest [OF d1 newest this]
  obtain c' where c': "cleanupSearchCache t_cleanup (c @ [(h, v)]) = c' @ [(h, v)]" "set c' \<subseteq> set c"
    by blast
  have "distinct (map fst (cleanupSearchCache t_cleanup (c @ [(h, v)])))"
    using d1 by (rule cleanup_distinct_keys)
  then show ?thesis
    unfolding set_eq using c' by auto
qed

section \<open>Put, then get\<close>

lemma search_web_fetched:
  assumes "fetchLatestWebData env_key resp = Inr (answer, srcs)"
  shows "search_web env_key resp h t_set t_cleanup q sv =
           (sv\<lparr>searchCache := cleanupSearchCache t_cleanup
                   (Map_set (searchCache sv) h
                      \<lparr>query = q, answerText = answer, sources = srcs, createdAt = t_set\<rparr>)\<rparr>,
            Inr (join (newline @ newline)
                   ([''result_id: '' @ h, answer]
                      @ (if renderSources srcs \<noteq> [] then [''Sources:'' @ newline @ renderSources srcs]
                         else [])
                      @ [not_saved_notice])))"
  using assms by (simp add: search_web_def Let_def)

text \<open>
  The hypotheses on the cache in the statements below hold in every state the server
  reaches while the clock does not step back: keys are distinct, no entry is created
  later than the time of the last put, and after a put the size is within the capacity.
\<close>

lemma cleanup_length_le:
  assumes "distinct (map fst c)"
  shows "length (cleanupSearchCache now c) \<le> SEARCH_CACHE_MAX_ITEMS"
proof -
  define s where "s = filter (\<lambda>e. \<not> expired now (snd e)) c"
  define t where "t = take (length s - SEARCH_CACHE_MAX_ITEMS) (sort_key (\<lambda>e. createdAt (snd e)) s)"
  have ds: "distinct s"
    unfolding s_def using assms by (simp add: distinct_keys_entries)
  have dt: "distinct t"
    unfolding t_def using ds by simp
  have ts: "set t \<subseteq> set s"
    unfolding t_def using set_take_subset [of _ "sort_key (\<lambda>e. createdAt (snd e)) s"] by simp
  have "length (cleanupSearchCache now c) = length s - length t"
    unfolding cleanup_distinct_eq [OF assms] Let_def s_def [symmetric] t_def [symmetric]
    by (rule length_filter_not_in [OF ds dt ts])
  then show ?thesis
    by (simp add: t_def)
qed

lemma search_web_cache_invariant:
  assumes fetched: "fetchLatestWebData env_key resp = Inr (answer, srcs)"
    and fresh: "h \<notin> Map_keys (searchCache sv)"
    and keys: "distinct (map fst (searchCache sv))"
    and newest: "\<forall>e \<in> set (searchCache sv). createdAt (snd e) \<le> t_set"
  shows "distinct (map fst (searchCache (fst (search_web env_key resp h t_set t_cleanup q sv))))
         \<and> (\<forall>e \<in> set (searchCache (fst (search_web env_key resp h t_set t_cleanup q sv))).
               createdAt (snd e) \<le> t_set)
         \<and> length (searchCache (fst (search_web env_key resp h t_set t_cleanup q sv)))
             \<le> SEARCH_CACHE_MAX_ITEMS"
proof -
  let ?v = "\<lparr>query = q, answerText = answer, sources = srcs, createdAt = t_set\<rparr>"
  let ?c0 = "searchCache sv @ [(h, ?v)]"
  have c1: "searchCache (fst (search_web env_key resp h t_set t_cleanup q sv))
              = cleanupSearchCache t_cleanup ?c0"
    using fresh by (simp add: search_web_fetched [OF fetched] Map_set_def)
  have d0: "distinct (map fst ?c0)"
    using fresh keys by (simp add: Map_keys_def)
  have "\<forall>e \<in> set ?c0. createdAt (snd e) \<le> t_set"
    using newest by simp
  then have "\<forall>e \<in> set (cleanupSearchCache t_cleanup ?c0). createdAt (snd e) \<le> t_set"
    using cleanup_subset [of t_cleanup ?c0] by blast
  then show ?thesis
    unfolding c1 using cleanup_distinct_keys [OF d0] cleanup_length_le [OF d0] by blast
qed

text \<open>
  C6, as the code has it. A search that succeeds stores its result under the fresh handle.
  When no entry already cached was created later than the new one (the wall clock has not
  stepped back since), and the cleanup of the put and the read are both within the TTL of
  the creation, the entry is there right after the put, and the read of the save tool
  (cleanup, then get) returns it with the query, the answer text and the sources that
  were put.
\<close>

theorem put_then_get:
  assumes fetched: "fetchLatestWebData env_key resp = Inr (answer, srcs)"
    and fresh: "h \<notin> Map_keys (searchCache sv)"
    and keys: "distinct (map fst (searchCache sv))"
    and newest: "\<forall>e \<in> set (searchCache sv). createdAt (snd e) \<le> t_set"
    and t1: "t_cleanup - t_set \<le> SEARCH_CACHE_TTL_MS"
    and t2: "t_get - t_set \<le> SEARCH_CACHE_TTL_MS"
  shows "Map_get (searchCache (fst (search_web env_key resp h t_set t_cleanup q sv))) h
           = Some \<lparr>query = q, answerText = answer, sources = srcs, createdAt = t_set\<rparr>
         \<and> Map_get (cleanupSearchCache t_get
                      (searchCache (fst (search_web env_key resp h t_set t_cleanup q sv)))) h
           = Some \<lparr>query = q, answerText = answer, sources = srcs, createdAt = t_set\<rparr>"
proof -
  let ?v = "\<lparr>query = q, answerText = answer, sources = srcs, createdAt = t_set\<rparr>"
  let ?c1 = "searchCache (fst (search_web env_key resp h t_set t_cleanup q sv))"
  have c1: "?c1 = cleanupSearchCache t_cleanup (Map_set (searchCache sv) h ?v)"
    by (simp add: search_web_fetched [OF fetched])
  have newest': "\<forall>e \<in> set (searchCache sv). createdAt (snd e) \<le> createdAt ?v"
    using newest by simp
  have t1': "t_cleanup - createdAt ?v \<le> SEARCH_CACHE_TTL_MS"
    using t1 by simp
  from put_cleanup_get [OF fresh keys newest' t1']
  obtain c' where c': "?c1 = c' @ [(h, ?v)]" "set c' \<subseteq> set (searchCache sv)"
    "distinct (map fst (c' @ [(h, ?v)]))"
    unfolding c1 by blast
  have first: "Map_get ?c1 h = Some ?v"
    unfolding c'(1) using c'(3) by (rule Map_get_snoc)
  have newest'': "\<forall>e \<in> set c'. createdAt (snd e) \<le> createdAt ?v"
    using newest' c'(2) by blast
  have "\<not> expired t_get ?v"
    using t2 by (simp add: expired_def)
  from cleanup_keeps_newest [OF c'(3) newest'' this]
  obtain c'' where c'': "cleanupSearchCache t_get (c' @ [(h, ?v)]) = c'' @ [(h, ?v)]"
    by blast
  have "distinct (map fst (cleanupSearchCache t_get (c' @ [(h, ?v)])))"
    using c'(3) by (rule cleanup_distinct_keys)
  then have "Map_get (c'' @ [(h, ?v)]) h = Some ?v"
    unfolding c'' by (rule Map_get_snoc)
  then have second: "Map_get (cleanupSearchCache t_get ?c1) h = Some ?v"
    unfolding c'(1) c'' .
  show ?thesis
    using first second by (rule conjI)
qed

lemma example_fetched:
  "fetchLatestWebData (Some ''key'') example_response
     = Inr (''Apple reported earnings.'', example_sources)"
  by (simp add: fetchLatestWebData_def requireEnv_def example_response_def)

lemma full_cache_keys: "''h2'' \<notin> Map_keys full_cache"
  by (auto simp: Map_keys_def full_cache_def Cons_replicate_eq simp del: replicate.simps upt_Suc)

lemma full_cache_newest: "\<forall>e \<in> set full_cache. createdAt (snd e) \<le> 2000300"
  by (auto simp: full_cache_def example_result_def simp del: replicate.simps upt_Suc)

theorem put_then_get_witness:
  "length (searchCache full_server) = 203
   \<and> ''h2'' \<notin> Map_keys (searchCache full_server)
   \<and> Map_get (cleanupSearchCache 2000400
        (searchCache (fst (search_web (Some ''key'') example_response ''h2'' 2000300 2000301
                             ''AAPL earnings'' full_server)))) ''h2''
       = Some \<lparr>query = ''AAPL earnings'', answerText = ''Apple reported earnings.'',
               sources = example_sources, createdAt = 2000300\<rparr>"
proof -
  have c: "searchCache full_server = full_cache"
    by (simp add: full_server_def)
  have len: "length (searchCache full_server) = 203"
    unfolding c by (simp add: full_cache_def del: upt_Suc)
  have fresh: "''h2'' \<notin> Map_keys (searchCache full_server)"
    unfolding c by (rule full_cache_keys)
  have keys: "distinct (map fst (searchCache full_server))"
    unfolding c by (rule full_cache_distinct)
  have newest: "\<forall>e \<in> set (searchCache full_server). createdAt (snd e) \<le> 2000300"
    unfolding c by (rule full_cache_newest)
  have t1: "2000301 - 2000300 \<le> SEARCH_CACHE_TTL_MS" and t2: "2000400 - 2000300 \<le> SEARCH_CACHE_TTL_MS"
    by (simp_all add: SEARCH_CACHE_TTL_MS_def)
  from put_then_get [OF example_fetched fresh keys newest t1 t2, of "''AAPL earnings''"]
  show ?thesis
    using len fresh by blast
qed

text \<open>
  C6 as stated fails when the clock has stepped back. The cache holds 200 entries created
  from time 1000 on, and a search puts its result at time 500: the new entry is the oldest
  of 201, the cleanup of the put trims it, the cache is what it was before, and the save
  tool answers that nothing is cached under the handle.
\<close>

lemma foldr_insort_least:
  "\<forall>x \<in> set xs. f r < f x \<Longrightarrow> foldr (insort_key f) xs [r] = r # sort_key f xs"
  by (induction xs) (auto simp: sort_key_def)

lemma sort_key_snoc_least:
  assumes "\<forall>x \<in> set xs. f r < f x" and "sorted (map f xs)"
  shows "sort_key f (xs @ [r]) = r # xs"
proof -
  have "sort_key f (xs @ [r]) = foldr (insort_key f) xs [r]"
    by (simp add: sort_key_def)
  also have "\<dots> = r # sort_key f xs"
    using assms(1) by (rule foldr_insort_least)
  finally show ?thesis
    by (simp add: sort_key_id_if_sorted [OF assms(2)])
qed

lemma stepped_cache_keys: "''h2'' \<notin> Map_keys stepped_cache"
  by (auto simp: Map_keys_def stepped_cache_def Cons_replicate_eq simp del: replicate.simps upt_Suc)

lemma stepped_cache_sorted: "sorted (map (\<lambda>e. createdAt (snd e)) stepped_cache)"
proof -
  have "sorted (map (\<lambda>i. 1000 + int i) [0..<200])"
    unfolding sorted_map by (rule sorted_wrt_mono_rel [OF _ sorted_wrt_upt]) simp
  then show ?thesis
    by (simp add: stepped_cache_def comp_def del: replicate.simps upt_Suc)
qed

lemma stepped_put:
  "cleanupSearchCache 500
     (Map_set stepped_cache ''h2''
        \<lparr>query = q, answerText = answer, sources = srcs, createdAt = 500\<rparr>)
   = stepped_cache"
proof -
  let ?v = "\<lparr>query = q, answerText = answer, sources = srcs, createdAt = 500\<rparr>"
  let ?c0 = "stepped_cache @ [(''h2'', ?v)]"
  have set_eq: "Map_set stepped_cache ''h2'' ?v = ?c0"
    using stepped_cache_keys by (simp add: Map_set_def)
  have later: "\<forall>e \<in> set stepped_cache. 500 < createdAt (snd e)"
    by (auto simp: stepped_cache_def simp del: replicate.simps upt_Suc)
  then have none: "{x \<in> set ?c0. expired 500 (snd x)} = {}"
    by (auto simp: expired_def SEARCH_CACHE_TTL_MS_def)
  have kept: "delete_expired 500 ?c0 = ?c0"
    unfolding delete_expired_keys none by simp
  have len: "length ?c0 = 201"
    by (simp add: stepped_cache_def del: upt_Suc)
  have "\<forall>e \<in> set stepped_cache. createdAt (snd (''h2'', ?v)) < createdAt (snd e)"
    using later by simp
  then have srt: "sort_key (\<lambda>e. createdAt (snd e)) ?c0 = (''h2'', ?v) # stepped_cache"
    using stepped_cache_sorted by (rule sort_key_snoc_least [where f = "\<lambda>e. createdAt (snd e)"])
  have "filter (\<lambda>e. fst e \<noteq> ''h2'') stepped_cache = stepped_cache"
    using stepped_cache_keys by (force simp: Map_keys_def filter_id_conv)
  then have "delete_all [(''h2'', ?v)] ?c0 = stepped_cache"
    by (simp add: delete_all_filter)
  then show ?thesis
    unfolding set_eq cleanupSearchCache_def Let_def kept len srt
    by (simp add: SEARCH_CACHE_MAX_ITEMS_def)
qed

theorem put_then_get_counterexample:
  "length (searchCache stepped_server) = 200
   \<and> ''h2'' \<notin> Map_keys (searchCache stepped_server)
   \<and> searchCache (fst (search_web (Some ''key'') example_response ''h2'' 500 500
                         ''AAPL earnings'' stepped_server))
       = searchCache stepped_server
   \<and> Map_get (searchCache (fst (search_web (Some ''key'') example_response ''h2'' 500 500
                                  ''AAPL earnings'' stepped_server))) ''h2''
       = None
   \<and> snd (save_to_db example_hostname_of show_int example_clock 500 ''h2'' None
            (fst (search_web (Some ''key'') example_response ''h2'' 500 500
                    ''AAPL earnings'' stepped_server)))
       = Inr (no_cached_message ''h2'')"
proof -
  let ?sv = "fst (search_web (Some ''key'') example_response ''h2'' 500 500
                    ''AAPL earnings'' stepped_server)"
  have c: "searchCache stepped_server = stepped_cache"
    by (simp add: stepped_server_def)
  have len: "length (searchCache stepped_server) = 200"
    unfolding c by (simp add: stepped_cache_def del: upt_Suc)
  have fresh: "''h2'' \<notin> Map_keys (searchCache stepped_server)"
    unfolding c by (rule stepped_cache_keys)
  have after: "searchCache ?sv = stepped_cache"
    unfolding search_web_fetched [OF example_fetched] c by (simp add: stepped_put)
  have absent: "Map_get (searchCache ?sv) ''h2'' = None"
    unfolding after using stepped_cache_keys by (simp add: Map_get_None_iff)
  then have "Map_get (cleanupSearchCache 500 (searchCache ?sv)) ''h2'' = None"
    by (rule cleanup_keeps_absent)
  then have "snd (save_to_db example_hostname_of show_int example_clock 500 ''h2'' None ?sv)
               = Inr (no_cached_message ''h2'')"
    by (simp add: save_to_db_def)
  with len fresh after absent show ?thesis
    unfolding c by simp
qed

section \<open>The search tool\<close>









end
